theory Spec2Isabelle
  imports Complex_Main "HOL-Library.Signed_Division"
begin

section \<open>JavaScript numbers\<close>

text \<open>
  The length-feedback algorithm of the structure strip computes with JavaScript numbers.
  They are modelled as exact rationals together with the three special values that the
  code can reach when a weight is zero: \<open>Infinity\<close>, \<open>-Infinity\<close> and \<open>NaN\<close>.
  The rounding error of IEEE doubles is not modelled: every finite result is the exact
  one. Every divisor of the program is a weight, a sum of weights, a greatest common
  divisor of weights or the literal 100, so a zero divisor is always the integer \<open>+0\<close>
  and the sign of zero is not modelled either.
\<close>

datatype number = Fin rat | PInf | NInf | NaN

instantiation number :: "{uminus, plus, minus, times, inverse, ord}"
begin

fun uminus_number :: "number \<Rightarrow> number" where
  "uminus_number (Fin a) = Fin (- a)"
| "uminus_number PInf = NInf"
| "uminus_number NInf = PInf"
| "uminus_number NaN = NaN"

fun plus_number :: "number \<Rightarrow> number \<Rightarrow> number" where
  "plus_number NaN y = NaN"
| "plus_number x NaN = NaN"
| "plus_number (Fin a) (Fin b) = Fin (a + b)"
| "plus_number PInf NInf = NaN"
| "plus_number NInf PInf = NaN"
| "plus_number PInf y = PInf"
| "plus_number NInf y = NInf"
| "plus_number (Fin a) y = y"

definition minus_number :: "number \<Rightarrow> number \<Rightarrow> number" where
  "minus_number x y = x + (- y)"

fun times_number :: "number \<Rightarrow> number \<Rightarrow> number" where
  "times_number NaN y = NaN"
| "times_number x NaN = NaN"
| "times_number (Fin a) (Fin b) = Fin (a * b)"
| "times_number (Fin a) y = (if a = 0 then NaN else if 0 < a then y else - y)"
| "times_number x (Fin b) = (if b = 0 then NaN else if 0 < b then x else - x)"
| "times_number PInf y = y"
| "times_number NInf y = - y"

fun divide_number :: "number \<Rightarrow> number \<Rightarrow> number" where
  "divide_number NaN y = NaN"
| "divide_number x NaN = NaN"
| "divide_number (Fin a) (Fin b) =
     (if b \<noteq> 0 then Fin (a / b) else if 0 < a then PInf else if a < 0 then NInf else NaN)"
| "divide_number (Fin a) y = Fin 0"
| "divide_number PInf (Fin b) = (if 0 \<le> b then PInf else NInf)"
| "divide_number NInf (Fin b) = (if 0 \<le> b then NInf else PInf)"
| "divide_number x y = NaN"

definition inverse_number :: "number \<Rightarrow> number" where
  "inverse_number x = divide (Fin 1) x"

fun less_number :: "number \<Rightarrow> number \<Rightarrow> bool" where
  "less_number NaN y = False"
| "less_number x NaN = False"
| "less_number (Fin a) (Fin b) = (a < b)"
| "less_number x NInf = False"
| "less_number PInf y = False"
| "less_number x y = True"

definition less_eq_number :: "number \<Rightarrow> number \<Rightarrow> bool" where
  "less_eq_number x y = (x < y \<or> (x = y \<and> x \<noteq> NaN))"

instance ..

end

text \<open>\<open>Math.max\<close> of two numbers, \<open>Math.floor\<close>, \<open>Math.ceil\<close> and \<open>Math.round\<close> (which
  rounds a half up).\<close>

definition Math_max :: "number \<Rightarrow> number \<Rightarrow> number" where
  "Math_max x y = (if x = NaN \<or> y = NaN then NaN else if x < y then y else x)"

fun Math_floor :: "number \<Rightarrow> number" where
  "Math_floor (Fin a) = Fin (of_int \<lfloor>a\<rfloor>)"
| "Math_floor x = x"

fun Math_ceil :: "number \<Rightarrow> number" where
  "Math_ceil (Fin a) = Fin (of_int \<lceil>a\<rceil>)"
| "Math_ceil x = x"

fun Math_round :: "number \<Rightarrow> number" where
  "Math_round (Fin a) = Fin (of_int \<lfloor>a + 1 / 2\<rfloor>)"
| "Math_round x = x"

text \<open>An integer-valued number (a weight, a string length).\<close>

definition num :: "int \<Rightarrow> number" where
  "num i = Fin (of_int i)"

section \<open>Util: the greatest common divisor\<close>

text \<open>
  Weights are integer-valued numbers. \<open>a % b\<close> is the truncated remainder, whose sign is
  the sign of \<open>a\<close>: \<open>smod\<close> on \<open>int\<close>. \<open>!b\<close> holds of the integer \<open>b\<close> exactly when
  \<open>b = 0\<close>.
\<close>

function Util_greatestCommonDivisor :: "int \<Rightarrow> int \<Rightarrow> int" where
  "Util_greatestCommonDivisor a b =
     (if b = 0 then a else Util_greatestCommonDivisor b (a smod b))"
  by pat_completeness auto
termination
proof (relation "measure (\<lambda>(a, b). nat \<bar>b\<bar>)")
  show "wf (measure (\<lambda>(a, b). nat \<bar>b\<bar>))" by simp
next
  fix a b :: int
  assume b: "b \<noteq> 0"
  then have "\<bar>a\<bar> mod \<bar>b\<bar> < \<bar>b\<bar>" by simp
  moreover from b have "0 \<le> \<bar>a\<bar> mod \<bar>b\<bar>" by simp
  then have "\<bar>a smod b\<bar> = \<bar>a\<bar> mod \<bar>b\<bar>"
    by (cases "a = 0") (simp_all add: signed_modulo_int_def abs_mult abs_sgn_eq)
  ultimately show "((b, a smod b), (a, b)) \<in> measure (\<lambda>(a, b). nat \<bar>b\<bar>)"
    by simp
qed

declare Util_greatestCommonDivisor.simps [simp del]

datatype error = TypeError

text \<open>
  \<open>Array.prototype.reduce\<close> without an initial value: the first element starts the
  accumulator, and an empty array raises a \<open>TypeError\<close>.
\<close>

definition reduce :: "('a \<Rightarrow> 'a \<Rightarrow> 'a) \<Rightarrow> 'a list \<Rightarrow> error + 'a" where
  "reduce f xs = (case xs of [] \<Rightarrow> Inl TypeError | x # rest \<Rightarrow> Inr (foldl f x rest))"

definition Util_greatestCommonDivisorArray :: "int list \<Rightarrow> error + int" where
  "Util_greatestCommonDivisorArray numbers =
     reduce (\<lambda>previous current.
        if previous = 0 then 1 else Util_greatestCommonDivisor previous current) numbers"

section \<open>Segments, templates and strings\<close>

text \<open>
  A segment object, read through its getters. \<open>getText\<close> is the current value of the
  segment's input field, which the learner changes; title and weight are fixed. Only the
  length of a text enters the computation. A segment is identified by its position in
  \<open>this.segments\<close>.
\<close>

record segment =
  getTitle :: string
  getWeight :: int
  getText :: string

text \<open>The argument of \<open>buildFeedbackTexts\<close>. \<open>alright\<close> may be \<open>null\<close> or missing.\<close>

record textTemplates =
  alright :: "string option"
  tooLong :: string
  tooShort :: string

record l10n =
  l10n_tooLong :: string
  l10n_tooShort :: string
  l10n_segmentTooLong :: string
  l10n_segmentTooShort :: string
  l10n_allSegmentsGood :: string

text \<open>
  \<open>s.replace(/pattern/g, replacement)\<close> for a literal pattern: every occurrence, from the
  left, without overlaps. The \<open>$\<close> patterns of a replacement string are not modelled.
  The counter is the number of characters of a match still to be skipped.
\<close>

fun replace_from :: "nat \<Rightarrow> string \<Rightarrow> string \<Rightarrow> string \<Rightarrow> string" where
  "replace_from k pattern replacement [] = []"
| "replace_from 0 pattern replacement (c # cs) =
     (if pattern \<noteq> [] \<and> take (length pattern) (c # cs) = pattern
      then replacement @ replace_from (length pattern - 1) pattern replacement cs
      else c # replace_from 0 pattern replacement cs)"
| "replace_from (Suc k) pattern replacement (c # cs) = replace_from k pattern replacement cs"

definition String_replace :: "string \<Rightarrow> string \<Rightarrow> string \<Rightarrow> string" where
  "String_replace pattern replacement s = replace_from 0 pattern replacement s"

text \<open>The decimal string of a number. Gaps are rounded, so a finite one is an integer.\<close>

fun natToString :: "nat \<Rightarrow> string" where
  "natToString n =
     (if n < 10 then [''0123456789'' ! n]
      else natToString (n div 10) @ [''0123456789'' ! (n mod 10)])"

declare natToString.simps [simp del]

fun numberToString :: "number \<Rightarrow> string" where
  "numberToString (Fin a) =
     (if a < 0 then ''-'' @ natToString (nat (- \<lfloor>a\<rfloor>)) else natToString (nat \<lfloor>a\<rfloor>))"
| "numberToString PInf = ''Infinity''"
| "numberToString NInf = ''-Infinity''"
| "numberToString NaN = ''NaN''"

text \<open>
  What the loop of \<open>buildFeedbackTexts\<close> decides for one segment, before it is turned
  into a text: too long by \<open>gap\<close> characters, too short by \<open>gap\<close> characters, alright, or
  too long with a gap of 0, for which \<open>null\<close> is pushed.
\<close>

datatype verdict = TooLong number | TooShort number | Alright | Suppressed

fun feedbackText :: "textTemplates \<Rightarrow> segment \<Rightarrow> verdict \<Rightarrow> string option" where
  "feedbackText textTemplates segment Suppressed = None"
| "feedbackText textTemplates segment (TooLong gap) =
     Some (String_replace ''@chars'' (numberToString gap)
            (String_replace ''@title'' (getTitle segment) (tooLong textTemplates)))"
| "feedbackText textTemplates segment (TooShort gap) =
     Some (String_replace ''@chars'' (numberToString gap)
            (String_replace ''@title'' (getTitle segment) (tooShort textTemplates)))"
| "feedbackText textTemplates segment Alright = alright textTemplates"

section \<open>StructureStripContent (h5p-structure-strip-content.js)\<close>

record content =
  segments :: "segment list"
  slack :: rat
  feedbackMode :: string
  l10n :: l10n
  mostImportantSegment :: nat
  greatestCommonDivisor :: int

text \<open>
  The reference segment: the reduction keeps the earlier segment unless the current one
  is strictly heavier. The result is an object of \<open>this.segments\<close>, here its position.
  (\<open>!previous\<close> never holds of an object.)
\<close>

definition determineReference :: "segment list \<Rightarrow> error + nat" where
  "determineReference segs =
     reduce (\<lambda>previous current.
        if getWeight (segs ! current) > getWeight (segs ! previous) then current else previous)
       [0..<length segs]"

text \<open>The constructor, given the segment objects it has built and the parameters.\<close>

definition StructureStripContent :: "segment list \<Rightarrow> rat \<Rightarrow> string \<Rightarrow> l10n \<Rightarrow> error + content" where
  "StructureStripContent segs slackParam mode texts =
     (case determineReference segs of
        Inl e \<Rightarrow> Inl e
      | Inr m \<Rightarrow>
         (case Util_greatestCommonDivisorArray (map getWeight segs) of
            Inl e \<Rightarrow> Inl e
          | Inr g \<Rightarrow>
             Inr \<lparr>segments = segs, slack = slackParam, feedbackMode = mode, l10n = texts,
                  mostImportantSegment = m, greatestCommonDivisor = g\<rparr>))"

definition referenceLength :: "content \<Rightarrow> number" where
  "referenceLength this =
     Math_max (num (int (length (getText (segments this ! mostImportantSegment this)))))
              (num (getWeight (segments this ! mostImportantSegment this))
                 / num (greatestCommonDivisor this))"

definition normalizedReferenceLength :: "content \<Rightarrow> number" where
  "normalizedReferenceLength this =
     referenceLength this / num (getWeight (segments this ! mostImportantSegment this))"

definition normalizedLengthMax :: "content \<Rightarrow> number" where
  "normalizedLengthMax this =
     normalizedReferenceLength this * (Fin 1 + Fin (slack this) / Fin 100)"

definition normalizedLengthMin :: "content \<Rightarrow> number" where
  "normalizedLengthMin this =
     normalizedReferenceLength this * (Fin 1 - Fin (slack this) / Fin 100)"

definition normalizedLength :: "segment \<Rightarrow> number" where
  "normalizedLength segment = num (int (length (getText segment))) / num (getWeight segment)"

definition segmentVerdict :: "number \<Rightarrow> number \<Rightarrow> segment \<Rightarrow> verdict" where
  "segmentVerdict lengthMax lengthMin segment =
     (let normalizedLength = normalizedLength segment in
      if normalizedLength > lengthMax then
        (let gap = Math_floor ((normalizedLength - lengthMax) * num (getWeight segment)) in
         if gap = Fin 0 then Suppressed else TooLong gap)
      else if normalizedLength < lengthMin then
        TooShort (Math_ceil ((lengthMin - normalizedLength) * num (getWeight segment)))
      else Alright)"

definition verdicts :: "content \<Rightarrow> verdict list" where
  "verdicts this =
     map (segmentVerdict (normalizedLengthMax this) (normalizedLengthMin this)) (segments this)"

definition buildFeedbackTexts :: "content \<Rightarrow> textTemplates \<Rightarrow> string option list" where
  "buildFeedbackTexts this textTemplates =
     map (\<lambda>segment. feedbackText textTemplates segment
            (segmentVerdict (normalizedLengthMax this) (normalizedLengthMin this) segment))
         (segments this)"

text \<open>\<open>updateSegments\<close>: the status texts set on the segments, if any are set.\<close>

definition updateSegments :: "content \<Rightarrow> string list option" where
  "updateSegments this =
     (if feedbackMode this \<noteq> ''continuously'' then None
      else Some (map (\<lambda>t. case t of None \<Rightarrow> ''&nbsp;'' | Some s \<Rightarrow> if s = [] then ''&nbsp;'' else s)
             (buildFeedbackTexts this
                \<lparr>alright = None, tooLong = l10n_tooLong (l10n this),
                 tooShort = l10n_tooShort (l10n this)\<rparr>)))"

text \<open>\<open>checkAnswer\<close>: the HTML handed to the feedback box, if any.\<close>

definition checkAnswer :: "content \<Rightarrow> string option" where
  "checkAnswer this =
     (if feedbackMode this \<noteq> ''onRequest'' then None
      else
        (let feedbackTexts = List.map_filter id
               (buildFeedbackTexts this
                  \<lparr>alright = None, tooLong = l10n_segmentTooLong (l10n this),
                   tooShort = l10n_segmentTooShort (l10n this)\<rparr>)
         in Some
           (if length feedbackTexts = 0 then ''<p>'' @ l10n_allSegmentsGood (l10n this) @ ''</p>''
            else if length feedbackTexts = 1 then ''<p>'' @ hd feedbackTexts @ ''</p>''
            else ''<ul>''
               @ foldl (\<lambda>previous current. previous @ ''<li>'' @ current @ ''</li>'') [] feedbackTexts
               @ ''</ul>'')))"

section \<open>The variant with absolute length bounds (part\_000)\<close>

record content_part0 = content +
  textLengthMin :: number
  textLengthMax :: number
  mostImportantSegmentPercentage :: number

text \<open>
  This constructor sets no defaults. The parameters \<open>textLengthMin\<close> and \<open>textLengthMax\<close>
  are numbers of the author's configuration, or missing: a missing one is \<open>undefined\<close>,
  which is \<open>NaN\<close> in every product and comparison it enters.
\<close>

fun paramNumber :: "rat option \<Rightarrow> number" where
  "paramNumber None = NaN"
| "paramNumber (Some a) = Fin a"

definition StructureStripContent_part0 ::
  "segment list \<Rightarrow> rat \<Rightarrow> string \<Rightarrow> l10n \<Rightarrow> rat option \<Rightarrow> rat option
     \<Rightarrow> error + content_part0" where
  "StructureStripContent_part0 segs slackParam mode texts lengthMinParam lengthMaxParam =
     (case determineReference segs of
        Inl e \<Rightarrow> Inl e
      | Inr m \<Rightarrow>
         (let lengthMin = paramNumber lengthMinParam;
              lengthMax = paramNumber lengthMaxParam;
              percentage = num (getWeight (segs ! m))
                / num (foldl (\<lambda>previous current. previous + getWeight current) 0 segs);
              lengthMax' = (if lengthMax * percentage < lengthMin then PInf else lengthMax)
          in case Util_greatestCommonDivisorArray (map getWeight segs) of
               Inl e \<Rightarrow> Inl e
             | Inr g \<Rightarrow>
                Inr \<lparr>segments = segs, slack = slackParam, feedbackMode = mode, l10n = texts,
                     mostImportantSegment = m, greatestCommonDivisor = g,
                     textLengthMin = lengthMin, textLengthMax = lengthMax',
                     mostImportantSegmentPercentage = percentage\<rparr>))"

definition rawReferenceLength_part0 :: "content_part0 \<Rightarrow> number" where
  "rawReferenceLength_part0 this =
     Math_max (num (int (length (getText (segments this ! mostImportantSegment this)))))
              (num (getWeight (segments this ! mostImportantSegment this))
                 / num (greatestCommonDivisor this))"

text \<open>The two clamps, in the order of the source: the pair of \<open>referenceLength\<close> and
  \<open>slackPercentage\<close> after them.\<close>

definition clampedReference_part0 :: "content_part0 \<Rightarrow> number \<times> number" where
  "clampedReference_part0 this =
     (let referenceLength = rawReferenceLength_part0 this;
          slackPercentage = Fin (slack this) / Fin 100;
          (referenceLength, slackPercentage) =
             (if referenceLength < textLengthMin this * mostImportantSegmentPercentage this
              then (textLengthMin this * mostImportantSegmentPercentage this, Fin 0)
              else (referenceLength, slackPercentage));
          (referenceLength, slackPercentage) =
             (if referenceLength > textLengthMax this * mostImportantSegmentPercentage this
              then (textLengthMax this * mostImportantSegmentPercentage this, Fin 0)
              else (referenceLength, slackPercentage))
      in (referenceLength, slackPercentage))"

definition normalizedReferenceLength_part0 :: "content_part0 \<Rightarrow> number" where
  "normalizedReferenceLength_part0 this =
     fst (clampedReference_part0 this)
       / num (getWeight (segments this ! mostImportantSegment this))"

definition normalizedLengthMax_part0 :: "content_part0 \<Rightarrow> number" where
  "normalizedLengthMax_part0 this =
     normalizedReferenceLength_part0 this * (Fin 1 + snd (clampedReference_part0 this))"

definition normalizedLengthMin_part0 :: "content_part0 \<Rightarrow> number" where
  "normalizedLengthMin_part0 this =
     normalizedReferenceLength_part0 this * (Fin 1 - snd (clampedReference_part0 this))"

definition segmentVerdict_part0 :: "number \<Rightarrow> number \<Rightarrow> segment \<Rightarrow> verdict" where
  "segmentVerdict_part0 lengthMax lengthMin segment =
     (let normalizedLength = normalizedLength segment in
      if normalizedLength > lengthMax then
        (let gap = Math_round ((normalizedLength - lengthMax) * num (getWeight segment)) in
         if gap = Fin 0 then Suppressed else TooLong gap)
      else if normalizedLength < lengthMin then
        TooShort (Math_round ((lengthMin - normalizedLength) * num (getWeight segment)))
      else Alright)"

definition verdicts_part0 :: "content_part0 \<Rightarrow> verdict list" where
  "verdicts_part0 this =
     map (segmentVerdict_part0 (normalizedLengthMax_part0 this) (normalizedLengthMin_part0 this))
         (segments this)"

definition buildFeedbackTexts_part0 :: "content_part0 \<Rightarrow> textTemplates \<Rightarrow> string option list" where
  "buildFeedbackTexts_part0 this textTemplates =
     map (\<lambda>segment. feedbackText textTemplates segment
            (segmentVerdict_part0 (normalizedLengthMax_part0 this)
               (normalizedLengthMin_part0 this) segment))
         (segments this)"

definition updateSegments_part0 :: "content_part0 \<Rightarrow> string list option" where
  "updateSegments_part0 this =
     (if feedbackMode this \<noteq> ''continuously'' then None
      else Some (map (\<lambda>t. case t of None \<Rightarrow> ''&nbsp;'' | Some s \<Rightarrow> if s = [] then ''&nbsp;'' else s)
             (buildFeedbackTexts_part0 this
                \<lparr>alright = None, tooLong = l10n_tooLong (l10n this),
                 tooShort = l10n_tooShort (l10n this)\<rparr>)))"


section \<open>The band in the words of the specification\<close>

text \<open>
  The specification derives the band over exact numbers: the reference length is the
  larger of the reference segment's text length and its weight divided by the greatest
  common divisor of the weights; the normalized reference is the reference length divided
  by the reference weight; the band is the normalized reference widened by the slack
  percentage. A segment is too long if its normalized length is above the band, too
  short if it is below, alright otherwise.
\<close>

definition spec_band :: "nat \<Rightarrow> int \<Rightarrow> int \<Rightarrow> rat \<Rightarrow> rat \<times> rat" where
  "spec_band referenceTextLength referenceWeight weightGCD slackPercent =
     (let referenceLength = max (of_nat referenceTextLength)
                                (of_int referenceWeight / of_int weightGCD);
          normalizedReference = referenceLength / of_int referenceWeight;
          bandMax = normalizedReference * (1 + slackPercent / 100);
          bandMin = normalizedReference * (1 - slackPercent / 100)
      in (bandMin, bandMax))"

datatype lengthClass = ClassTooShort | ClassAlright | ClassTooLong


text \<open>The branch of the loop a verdict comes from; a suppressed verdict comes from the
  branch of the too long segments.\<close>

fun verdictClass :: "verdict \<Rightarrow> lengthClass" where
  "verdictClass (TooLong gap) = ClassTooLong"
| "verdictClass Suppressed = ClassTooLong"
| "verdictClass (TooShort gap) = ClassTooShort"
| "verdictClass Alright = ClassAlright"

text \<open>The order of the verdicts along a growing text: too short, alright, too long with
  a gap of 0, too long.\<close>

fun verdictRank :: "verdict \<Rightarrow> nat" where
  "verdictRank (TooShort gap) = 0"
| "verdictRank Alright = 1"
| "verdictRank Suppressed = 2"
| "verdictRank (TooLong gap) = 3"

text \<open>The same order on the three classes.\<close>

fun classRank :: "lengthClass \<Rightarrow> nat" where
  "classRank ClassTooShort = 0"
| "classRank ClassAlright = 1"
| "classRank ClassTooLong = 2"

text \<open>The learner's typing: the text of the segment at position \<open>i\<close> becomes \<open>t\<close>.\<close>

definition setText :: "nat \<Rightarrow> string \<Rightarrow> segment list \<Rightarrow> segment list" where
  "setText i t segs = segs[i := (segs ! i)\<lparr>getText := t\<rparr>]"

section \<open>The greatest common divisor of the weights\<close>

lemma Util_greatestCommonDivisor_zero:
  "Util_greatestCommonDivisor a 0 = a"
  by (simp add: Util_greatestCommonDivisor.simps [of a 0])

lemma Util_greatestCommonDivisor_step:
  "b \<noteq> 0 \<Longrightarrow> Util_greatestCommonDivisor a b = Util_greatestCommonDivisor b (a smod b)"
  by (subst Util_greatestCommonDivisor.simps) simp

lemma Util_greatestCommonDivisor_gcd:
  "0 \<le> a \<Longrightarrow> 0 \<le> b \<Longrightarrow> Util_greatestCommonDivisor a b = gcd a b"
proof (induction a b rule: Util_greatestCommonDivisor.induct)
  case (1 a b)
  show ?case
  proof (cases "b = 0")
    case True
    with "1.prems" show ?thesis by (simp add: Util_greatestCommonDivisor_zero)
  next
    case False
    with "1.prems" have b: "0 < b" by simp
    from "1.prems" b have m: "a smod b = a mod b"
      by (cases "a = 0") (simp_all add: signed_modulo_int_def)
    from b have "0 \<le> a mod b" by simp
    with "1.IH" [OF False] "1.prems" m
    have "Util_greatestCommonDivisor b (a smod b) = gcd b (a mod b)" by simp
    also have "\<dots> = gcd a b" by (metis gcd.commute gcd_red_int)
    finally show ?thesis using False by (simp add: Util_greatestCommonDivisor_step)
  qed
qed

lemma foldl_gcd_positive:
  "0 < x \<Longrightarrow> \<forall>w\<in>set ws. 0 < w \<Longrightarrow>
     foldl (\<lambda>previous current.
        if previous = 0 then 1 else Util_greatestCommonDivisor previous current) x ws
       = foldl gcd x ws"
proof (induction ws arbitrary: x)
  case Nil
  show ?case by simp
next
  case (Cons w ws)
  from Cons.prems have w: "0 < w" by simp
  with Cons.prems have g: "0 < gcd x w" by (simp add: gcd_pos_int)
  from Cons.prems w have "Util_greatestCommonDivisor x w = gcd x w"
    by (simp add: Util_greatestCommonDivisor_gcd)
  with Cons.prems Cons.IH [OF g] show ?case by simp
qed

lemma foldl_gcd_dvd:
  "foldl gcd (x::int) ws dvd x \<and> (\<forall>w\<in>set ws. foldl gcd x ws dvd w)"
proof (induction ws arbitrary: x)
  case Nil
  show ?case by simp
next
  case (Cons w ws)
  from Cons.IH [of "gcd x w"]
  have 1: "foldl gcd (gcd x w) ws dvd gcd x w"
    and 2: "\<forall>v\<in>set ws. foldl gcd (gcd x w) ws dvd v" by simp_all
  from 1 have "foldl gcd (gcd x w) ws dvd x" "foldl gcd (gcd x w) ws dvd w"
    by (meson dvd_trans gcd_dvd1 gcd_dvd2)+
  with 2 show ?case by simp
qed

lemma foldl_gcd_pos:
  "0 < (x::int) \<Longrightarrow> 0 < foldl gcd x ws"
  by (induction ws arbitrary: x) (simp_all add: gcd_pos_int)

lemma gcdArray_positive:
  assumes "ws \<noteq> []" and "\<forall>w\<in>set ws. 0 < w"
  shows "\<exists>g. Util_greatestCommonDivisorArray ws = Inr g \<and> 0 < g \<and> (\<forall>w\<in>set ws. g dvd w)"
proof -
  from assms(1) obtain x rest where ws: "ws = x # rest" by (cases ws) auto
  with assms(2) have x: "0 < x" and rest: "\<forall>w\<in>set rest. 0 < w" by simp_all
  have "Util_greatestCommonDivisorArray ws = Inr (foldl gcd x rest)"
    by (simp add: Util_greatestCommonDivisorArray_def reduce_def ws foldl_gcd_positive [OF x rest])
  moreover have "0 < foldl gcd x rest" using x by (rule foldl_gcd_pos)
  moreover have "\<forall>w\<in>set ws. foldl gcd x rest dvd w"
    using foldl_gcd_dvd [of x rest] by (simp add: ws)
  ultimately show ?thesis by blast
qed

text \<open>
  C6. For a non-empty list of positive integer weights, \<open>Util.greatestCommonDivisorArray\<close>
  returns a number that divides every weight of the list; for a list of one weight it
  returns that weight.
\<close>

theorem weightGCD_divides_every_weight:
  "(ws \<noteq> [] \<and> (\<forall>w\<in>set ws. 0 < w) \<longrightarrow>
      (\<exists>g. Util_greatestCommonDivisorArray ws = Inr g \<and> (\<forall>w\<in>set ws. g dvd w)))
   \<and> Util_greatestCommonDivisorArray [v] = Inr v"
proof
  show "ws \<noteq> [] \<and> (\<forall>w\<in>set ws. 0 < w) \<longrightarrow>
      (\<exists>g. Util_greatestCommonDivisorArray ws = Inr g \<and> (\<forall>w\<in>set ws. g dvd w))"
    using gcdArray_positive [of ws] by blast
  show "Util_greatestCommonDivisorArray [v] = Inr v"
    by (simp add: Util_greatestCommonDivisorArray_def reduce_def)
qed

theorem weightGCD_divides_every_weight_witness:
  "Util_greatestCommonDivisorArray [12, 18, 30] = Inr 6 \<and> (6::int) dvd 12 \<and> (6::int) dvd 18
   \<and> (6::int) dvd 30 \<and> Util_greatestCommonDivisorArray [7] = Inr 7"
proof -
  have e: "Util_greatestCommonDivisorArray [12, 18, 30] = Inr 6"
    by code_simp
  from weightGCD_divides_every_weight [of "[12, 18, 30]" 7]
  have "Util_greatestCommonDivisorArray [7] = Inr 7" by blast
  with e show ?thesis by simp
qed

section \<open>The reference segment\<close>

lemma reference_fold:
  fixes W :: "nat \<Rightarrow> int"
  assumes f_def: "\<And>previous current. f previous current = (if W current > W previous then current else previous)"
  shows "foldl f 0 [Suc 0..<Suc n] \<le> n
     \<and> (\<forall>j\<le>n. W j \<le> W (foldl f 0 [Suc 0..<Suc n]))
     \<and> (\<forall>j<foldl f 0 [Suc 0..<Suc n]. W j < W (foldl f 0 [Suc 0..<Suc n]))"
proof (induction n)
  case 0
  show ?case by simp
next
  case (Suc n)
  define r where "r = foldl f 0 [Suc 0..<Suc n]"
  have step: "foldl f 0 [Suc 0..<Suc (Suc n)] = f r (Suc n)"
    by (simp add: r_def upt_Suc_append del: upt_Suc)
  from Suc.IH have r: "r \<le> n" and le: "\<forall>j\<le>n. W j \<le> W r" and lt: "\<forall>j<r. W j < W r"
    unfolding r_def by blast+
  show ?case
  proof (cases "W (Suc n) > W r")
    case True
    then have fr: "f r (Suc n) = Suc n" by (simp add: f_def)
    have "\<forall>j\<le>Suc n. W j \<le> W (Suc n)"
      using le True by (auto simp: le_Suc_eq intro: order_trans less_imp_le)
    moreover have "\<forall>j<Suc n. W j < W (Suc n)"
      using le True by (auto simp: less_Suc_eq_le intro: le_less_trans)
    ultimately show ?thesis unfolding step fr by simp
  next
    case False
    then have fr: "f r (Suc n) = r" by (simp add: f_def)
    have "\<forall>j\<le>Suc n. W j \<le> W r"
      using le False by (auto simp: le_Suc_eq)
    with r lt show ?thesis unfolding step fr by simp
  qed
qed

lemma determineReference_first_max:
  assumes "segs \<noteq> []"
  shows "\<exists>m. determineReference segs = Inr m \<and> m < length segs
     \<and> (\<forall>j<length segs. getWeight (segs ! j) \<le> getWeight (segs ! m))
     \<and> (\<forall>j<m. getWeight (segs ! j) < getWeight (segs ! m))"
proof -
  from assms obtain n where n: "length segs = Suc n" by (cases segs) auto
  have upt: "[0..<Suc n] = 0 # [Suc 0..<Suc n]" by (simp add: upt_conv_Cons del: upt_Suc)
  let ?f = "\<lambda>previous current.
        if getWeight (segs ! current) > getWeight (segs ! previous) then current else previous"
  have d: "determineReference segs = Inr (foldl ?f 0 [Suc 0..<Suc n])"
    unfolding determineReference_def reduce_def n upt by simp
  from reference_fold [of ?f "\<lambda>j. getWeight (segs ! j)" n] show ?thesis
    unfolding d n by (auto simp: less_Suc_eq_le)
qed


lemma gcdArray_nonempty:
  "ws \<noteq> [] \<Longrightarrow> \<exists>g. Util_greatestCommonDivisorArray ws = Inr g"
  by (cases ws) (simp_all add: Util_greatestCommonDivisorArray_def reduce_def)

lemma StructureStripContent_fields:
  assumes "StructureStripContent segs sl mode tx = Inr this"
  shows "segments this = segs \<and> slack this = sl
     \<and> determineReference segs = Inr (mostImportantSegment this)
     \<and> Util_greatestCommonDivisorArray (map getWeight segs) = Inr (greatestCommonDivisor this)"
  using assms by (auto simp: StructureStripContent_def split: sum.splits)

lemma StructureStripContent_part0_fields:
  assumes "StructureStripContent_part0 segs sl mode tx lmin lmax = Inr this"
  shows "segments this = segs \<and> slack this = sl
     \<and> determineReference segs = Inr (mostImportantSegment this)
     \<and> Util_greatestCommonDivisorArray (map getWeight segs) = Inr (greatestCommonDivisor this)"
  using assms by (auto simp: StructureStripContent_part0_def Let_def split: sum.splits)

lemma StructureStripContent_succeeds:
  assumes "segs \<noteq> []"
  shows "\<exists>this. StructureStripContent segs sl mode tx = Inr this"
proof -
  from determineReference_first_max [OF assms]
  obtain m where "determineReference segs = Inr m" by blast
  moreover from assms gcdArray_nonempty [of "map getWeight segs"]
  obtain g where "Util_greatestCommonDivisorArray (map getWeight segs) = Inr g" by auto
  ultimately show ?thesis by (simp add: StructureStripContent_def)
qed

lemma StructureStripContent_part0_succeeds:
  assumes "segs \<noteq> []"
  shows "\<exists>this. StructureStripContent_part0 segs sl mode tx lmin lmax = Inr this"
proof -
  from determineReference_first_max [OF assms]
  obtain m where "determineReference segs = Inr m" by blast
  moreover from assms gcdArray_nonempty [of "map getWeight segs"]
  obtain g where "Util_greatestCommonDivisorArray (map getWeight segs) = Inr g" by auto
  ultimately show ?thesis by (simp add: StructureStripContent_part0_def Let_def)
qed

text \<open>
  C5. For a non-empty segment list both constructors succeed, and the reference segment
  they choose is at least as heavy as every segment and strictly heavier than every
  segment before it: it is the first segment of maximal weight.
\<close>

theorem reference_is_first_heaviest:
  assumes "segs \<noteq> []"
  shows "(\<exists>this. StructureStripContent segs sl mode tx = Inr this
            \<and> mostImportantSegment this < length segs
            \<and> (\<forall>j<length segs. getWeight (segs ! j) \<le> getWeight (segs ! mostImportantSegment this))
            \<and> (\<forall>j<mostImportantSegment this.
                  getWeight (segs ! j) < getWeight (segs ! mostImportantSegment this)))
       \<and> (\<exists>this. StructureStripContent_part0 segs sl mode tx lmin lmax = Inr this
            \<and> mostImportantSegment this < length segs
            \<and> (\<forall>j<length segs. getWeight (segs ! j) \<le> getWeight (segs ! mostImportantSegment this))
            \<and> (\<forall>j<mostImportantSegment this.
                  getWeight (segs ! j) < getWeight (segs ! mostImportantSegment this)))"
proof -
  from determineReference_first_max [OF assms]
  obtain m where m: "determineReference segs = Inr m" "m < length segs"
    "\<forall>j<length segs. getWeight (segs ! j) \<le> getWeight (segs ! m)"
    "\<forall>j<m. getWeight (segs ! j) < getWeight (segs ! m)" by blast
  from StructureStripContent_succeeds [OF assms]
  obtain a where a: "StructureStripContent segs sl mode tx = Inr a" by blast
  from StructureStripContent_part0_succeeds [OF assms]
  obtain b where b: "StructureStripContent_part0 segs sl mode tx lmin lmax = Inr b" by blast
  from StructureStripContent_fields [OF a] m(1) have "mostImportantSegment a = m" by simp
  moreover from StructureStripContent_part0_fields [OF b] m(1)
  have "mostImportantSegment b = m" by simp
  ultimately show ?thesis using a b m(2-4) by simp
qed

theorem reference_is_first_heaviest_witness:
  "(\<exists>this. StructureStripContent
        [\<lparr>getTitle = ''A'', getWeight = 2, getText = ''x''\<rparr>,
         \<lparr>getTitle = ''B'', getWeight = 5, getText = ''''\<rparr>,
         \<lparr>getTitle = ''C'', getWeight = 5, getText = ''yz''\<rparr>] 10 ''onRequest'' \<lparr>l10n_tooLong = ''too long'', l10n_tooShort = ''too short'',
           l10n_segmentTooLong = ''@title: remove @chars'',
           l10n_segmentTooShort = ''@title: add @chars'',
           l10n_allSegmentsGood = ''good''\<rparr> = Inr this
      \<and> mostImportantSegment this = 1)
   \<and> (\<exists>this. StructureStripContent_part0
        [\<lparr>getTitle = ''A'', getWeight = 2, getText = ''x''\<rparr>,
         \<lparr>getTitle = ''B'', getWeight = 5, getText = ''''\<rparr>,
         \<lparr>getTitle = ''C'', getWeight = 5, getText = ''yz''\<rparr>] 10 ''onRequest'' \<lparr>l10n_tooLong = ''too long'', l10n_tooShort = ''too short'',
           l10n_segmentTooLong = ''@title: remove @chars'',
           l10n_segmentTooShort = ''@title: add @chars'',
           l10n_allSegmentsGood = ''good''\<rparr> None None = Inr this
      \<and> mostImportantSegment this = 1)"
proof -
  let ?segs = "[\<lparr>getTitle = ''A'', getWeight = 2, getText = ''x''\<rparr>,
         \<lparr>getTitle = ''B'', getWeight = 5, getText = ''''\<rparr>,
         \<lparr>getTitle = ''C'', getWeight = 5, getText = ''yz''\<rparr>]"
  have ne: "?segs \<noteq> []" by simp
  have w: "getWeight (?segs ! 0) = 2" "getWeight (?segs ! 1) = 5" "getWeight (?segs ! 2) = 5"
    by simp_all
  from reference_is_first_heaviest [OF ne, of 10 "''onRequest''" "\<lparr>l10n_tooLong = ''too long'', l10n_tooShort = ''too short'',
           l10n_segmentTooLong = ''@title: remove @chars'',
           l10n_segmentTooShort = ''@title: add @chars'',
           l10n_allSegmentsGood = ''good''\<rparr>" None None]
  obtain a b where a: "StructureStripContent ?segs 10 ''onRequest'' \<lparr>l10n_tooLong = ''too long'', l10n_tooShort = ''too short'',
           l10n_segmentTooLong = ''@title: remove @chars'',
           l10n_segmentTooShort = ''@title: add @chars'',
           l10n_allSegmentsGood = ''good''\<rparr> = Inr a"
      "mostImportantSegment a < 3"
      "\<forall>j<3. getWeight (?segs ! j) \<le> getWeight (?segs ! mostImportantSegment a)"
      "\<forall>j<mostImportantSegment a. getWeight (?segs ! j) < getWeight (?segs ! mostImportantSegment a)"
    and b: "StructureStripContent_part0 ?segs 10 ''onRequest'' \<lparr>l10n_tooLong = ''too long'', l10n_tooShort = ''too short'',
           l10n_segmentTooLong = ''@title: remove @chars'',
           l10n_segmentTooShort = ''@title: add @chars'',
           l10n_allSegmentsGood = ''good''\<rparr> None None = Inr b"
      "mostImportantSegment b < 3"
      "\<forall>j<3. getWeight (?segs ! j) \<le> getWeight (?segs ! mostImportantSegment b)"
      "\<forall>j<mostImportantSegment b. getWeight (?segs ! j) < getWeight (?segs ! mostImportantSegment b)"
    by auto
  have pick: "m = 1" if "m < 3"
      "\<forall>j<3. getWeight (?segs ! j) \<le> getWeight (?segs ! m)"
      "\<forall>j<m. getWeight (?segs ! j) < getWeight (?segs ! m)" for m :: nat
  proof -
    from that(1) consider "m = 0" | "m = 1" | "m = 2" by linarith
    then show ?thesis
    proof cases
      case 1
      with that(2) [rule_format, of 1] have "getWeight (?segs ! 1) \<le> getWeight (?segs ! 0)" by simp
      then show ?thesis by simp
    next
      case 2
      then show ?thesis .
    next
      case 3
      with that(3) [rule_format, of 1] have "getWeight (?segs ! 1) < getWeight (?segs ! 2)" by simp
      then show ?thesis by simp
    qed
  qed
  from pick [OF a(2-4)] pick [OF b(2-4)] a(1) b(1) show ?thesis by blast
qed

section \<open>Finite numbers and positive weights\<close>

lemma Fin_minus: "Fin a - Fin b = Fin (a - b)"
  by (simp add: minus_number_def)

lemma Fin_divide: "b \<noteq> 0 \<Longrightarrow> Fin a / Fin b = Fin (a / b)"
  by simp

lemma Fin_le: "Fin a \<le> Fin b \<longleftrightarrow> a \<le> b"
  by (auto simp: less_eq_number_def)

lemma Math_max_Fin: "Math_max (Fin a) (Fin b) = Fin (max a b)"
  by (simp add: Math_max_def max_def)

lemma determineReference_empty: "determineReference [] = Inl TypeError"
  by (simp add: determineReference_def reduce_def)

lemma positive_reference:
  assumes "determineReference segs = Inr m" and "\<forall>s\<in>set segs. 0 < getWeight s"
  shows "m < length segs \<and> 0 < getWeight (segs ! m)"
proof -
  from assms(1) have "segs \<noteq> []" by (auto simp: determineReference_empty)
  from determineReference_first_max [OF this] assms(1) have "m < length segs" by auto
  with assms(2) show ?thesis by simp
qed

lemma positive_gcd:
  assumes "Util_greatestCommonDivisorArray (map getWeight segs) = Inr g"
    and "\<forall>s\<in>set segs. 0 < getWeight s"
  shows "0 < g \<and> (\<forall>s\<in>set segs. g dvd getWeight s)"
proof -
  from assms(1) have ne: "map getWeight segs \<noteq> []"
    by (auto simp: Util_greatestCommonDivisorArray_def reduce_def)
  from assms(2) have "\<forall>w\<in>set (map getWeight segs). 0 < w" by simp
  from gcdArray_positive [OF ne this] assms(1) show ?thesis by auto
qed

lemma gcdArray_Gcd:
  assumes "Util_greatestCommonDivisorArray ws = Inr g" and "\<forall>w\<in>set ws. 0 < w"
  shows "g = Gcd (set ws)"
proof -
  from assms(1) obtain x rest where ws: "ws = x # rest"
    by (cases ws) (auto simp: Util_greatestCommonDivisorArray_def reduce_def)
  with assms(2) have x: "0 < x" and rest: "\<forall>w\<in>set rest. 0 < w" by simp_all
  from assms(1) have "g = foldl gcd x rest"
    by (simp add: Util_greatestCommonDivisorArray_def reduce_def ws foldl_gcd_positive [OF x rest])
  also have "\<dots> = fold gcd rest x"
    by (simp add: foldl_conv_fold gcd.commute)
  also have "\<dots> = fold gcd (x # rest) 0" using x by simp
  also have "\<dots> = Gcd (set ws)" by (simp only: ws Gcd_set_eq_fold)
  finally show ?thesis .
qed

lemma segmentVerdict_Fin:
  assumes "0 < getWeight segment"
  shows "segmentVerdict (Fin mx) (Fin mn) segment =
     (let nl = of_nat (length (getText segment)) / of_int (getWeight segment) in
      if nl > mx then
        (if \<lfloor>(nl - mx) * of_int (getWeight segment)\<rfloor> = 0 then Suppressed
         else TooLong (num \<lfloor>(nl - mx) * of_int (getWeight segment)\<rfloor>))
      else if nl < mn then TooShort (num \<lceil>(mn - nl) * of_int (getWeight segment)\<rceil>)
      else Alright)"
  using assms
  by (simp add: segmentVerdict_def normalizedLength_def num_def Let_def Fin_minus)

lemma segmentVerdict_part0_Fin:
  assumes "0 < getWeight segment"
  shows "segmentVerdict_part0 (Fin mx) (Fin mn) segment =
     (let nl = of_nat (length (getText segment)) / of_int (getWeight segment) in
      if nl > mx then
        (if \<lfloor>(nl - mx) * of_int (getWeight segment) + 1 / 2\<rfloor> = 0 then Suppressed
         else TooLong (num \<lfloor>(nl - mx) * of_int (getWeight segment) + 1 / 2\<rfloor>))
      else if nl < mn then TooShort (num \<lfloor>(mn - nl) * of_int (getWeight segment) + 1 / 2\<rfloor>)
      else Alright)"
  using assms
  by (simp add: segmentVerdict_part0_def normalizedLength_def num_def Let_def Fin_minus)

section \<open>The band of h5p-structure-strip-content.js\<close>

lemma content_positive:
  assumes c: "StructureStripContent segs sl mode tx = Inr this"
    and pos: "\<forall>s\<in>set segs. 0 < getWeight s"
  shows "segments this = segs" "slack this = sl" "mostImportantSegment this < length segs"
    "0 < getWeight (segs ! mostImportantSegment this)" "0 < greatestCommonDivisor this"
    "greatestCommonDivisor this = Gcd (getWeight ` set segs)"
proof -
  note f = StructureStripContent_fields [OF c]
  from f show "segments this = segs" "slack this = sl" by simp_all
  from f positive_reference [OF _ pos]
  show "mostImportantSegment this < length segs"
    "0 < getWeight (segs ! mostImportantSegment this)" by blast+
  from f positive_gcd [OF _ pos] show "0 < greatestCommonDivisor this" by blast
  from pos have "\<forall>w\<in>set (map getWeight segs). 0 < w" by simp
  with f gcdArray_Gcd [of "map getWeight segs" "greatestCommonDivisor this"]
  show "greatestCommonDivisor this = Gcd (getWeight ` set segs)" by simp
qed

lemma content_band:
  assumes c: "StructureStripContent segs sl mode tx = Inr this"
    and pos: "\<forall>s\<in>set segs. 0 < getWeight s"
  shows "normalizedLengthMin this =
           Fin (fst (spec_band (length (getText (segs ! mostImportantSegment this)))
                  (getWeight (segs ! mostImportantSegment this)) (greatestCommonDivisor this) sl))"
    and "normalizedLengthMax this =
           Fin (snd (spec_band (length (getText (segs ! mostImportantSegment this)))
                  (getWeight (segs ! mostImportantSegment this)) (greatestCommonDivisor this) sl))"
proof -
  note p = content_positive [OF c pos]
  have r: "referenceLength this =
      Fin (max (of_nat (length (getText (segs ! mostImportantSegment this))))
               (of_int (getWeight (segs ! mostImportantSegment this))
                  / of_int (greatestCommonDivisor this)))"
    using p(5) by (simp add: referenceLength_def p(1) num_def Math_max_Fin)
  have n: "normalizedReferenceLength this =
      Fin (max (of_nat (length (getText (segs ! mostImportantSegment this))))
               (of_int (getWeight (segs ! mostImportantSegment this))
                  / of_int (greatestCommonDivisor this))
            / of_int (getWeight (segs ! mostImportantSegment this)))"
    using p(4) by (simp add: normalizedReferenceLength_def r p(1) num_def)
  show "normalizedLengthMin this =
           Fin (fst (spec_band (length (getText (segs ! mostImportantSegment this)))
                  (getWeight (segs ! mostImportantSegment this)) (greatestCommonDivisor this) sl))"
    by (simp add: normalizedLengthMin_def n p(2) spec_band_def Let_def Fin_minus)
  show "normalizedLengthMax this =
           Fin (snd (spec_band (length (getText (segs ! mostImportantSegment this)))
                  (getWeight (segs ! mostImportantSegment this)) (greatestCommonDivisor this) sl))"
    by (simp add: normalizedLengthMax_def n p(2) spec_band_def Let_def)
qed




section \<open>The clamps of part\_000\<close>

lemma foldl_weights:
  "foldl (\<lambda>previous current. previous + getWeight current) a segs
     = a + sum_list (map getWeight segs)"
  by (induction segs arbitrary: a) simp_all

lemma weight_le_sum:
  "\<forall>s\<in>set segs. 0 < getWeight s \<Longrightarrow> m < length segs \<Longrightarrow>
     getWeight (segs ! m) \<le> sum_list (map getWeight segs)"
proof (induction segs arbitrary: m)
  case Nil
  then show ?case by simp
next
  case (Cons s segs)
  from Cons.prems(1) have nn: "0 \<le> sum_list (map getWeight segs)"
    by (intro sum_list_nonneg) auto
  show ?case
  proof (cases m)
    case 0
    with nn show ?thesis by simp
  next
    case (Suc k)
    with Cons.prems have "getWeight (segs ! k) \<le> sum_list (map getWeight segs)"
      by (intro Cons.IH) simp_all
    with Suc Cons.prems(1) show ?thesis by simp
  qed
qed

lemma part0_positive:
  assumes c: "StructureStripContent_part0 segs sl mode tx lmin lmax = Inr this"
    and pos: "\<forall>s\<in>set segs. 0 < getWeight s"
  shows "segments this = segs" "slack this = sl" "mostImportantSegment this < length segs"
    "0 < getWeight (segs ! mostImportantSegment this)" "0 < greatestCommonDivisor this"
    "greatestCommonDivisor this = Gcd (getWeight ` set segs)"
proof -
  note f = StructureStripContent_part0_fields [OF c]
  from f show "segments this = segs" "slack this = sl" by simp_all
  from f positive_reference [OF _ pos]
  show "mostImportantSegment this < length segs"
    "0 < getWeight (segs ! mostImportantSegment this)" by blast+
  from f positive_gcd [OF _ pos] show "0 < greatestCommonDivisor this" by blast
  from pos have "\<forall>w\<in>set (map getWeight segs). 0 < w" by simp
  with f gcdArray_Gcd [of "map getWeight segs" "greatestCommonDivisor this"]
  show "greatestCommonDivisor this = Gcd (getWeight ` set segs)" by simp
qed

lemma part0_bounds:
  assumes c: "StructureStripContent_part0 segs sl mode tx lmin lmax = Inr this"
    and pos: "\<forall>s\<in>set segs. 0 < getWeight s"
  shows "\<exists>p. 0 < p \<and> p \<le> 1 \<and> mostImportantSegmentPercentage this = Fin p
     \<and> p = of_int (getWeight (segs ! mostImportantSegment this))
              / of_int (sum_list (map getWeight segs))
     \<and> textLengthMin this = paramNumber lmin
     \<and> textLengthMax this =
         (if paramNumber lmax * Fin p < paramNumber lmin then PInf else paramNumber lmax)"
proof -
  note p = part0_positive [OF c pos]
  let ?w = "getWeight (segs ! mostImportantSegment this)"
  let ?S = "sum_list (map getWeight segs)"
  from weight_le_sum [OF pos p(3)] have le: "?w \<le> ?S" .
  with p(4) have S: "0 < ?S" by simp
  let ?p = "(of_int ?w :: rat) / of_int ?S"
  from p(4) S have p0: "0 < ?p" by simp
  from le S have p1: "?p \<le> 1" by simp
  from S have pct: "num ?w / num (foldl (\<lambda>previous current. previous + getWeight current) 0 segs)
      = Fin ?p"
    by (simp add: foldl_weights num_def)
  from c obtain m g where m: "determineReference segs = Inr m"
    and eq: "this = \<lparr>segments = segs, slack = sl, feedbackMode = mode, l10n = tx,
                     mostImportantSegment = m, greatestCommonDivisor = g,
                     textLengthMin = paramNumber lmin,
                     textLengthMax =
                       (if paramNumber lmax
                            * (num (getWeight (segs ! m))
                                / num (foldl (\<lambda>previous current. previous + getWeight current) 0 segs))
                           < paramNumber lmin
                        then PInf else paramNumber lmax),
                     mostImportantSegmentPercentage =
                       num (getWeight (segs ! m))
                         / num (foldl (\<lambda>previous current. previous + getWeight current) 0 segs)\<rparr>"
    by (fastforce simp: StructureStripContent_part0_def Let_def split: sum.splits)
  from m StructureStripContent_part0_fields [OF c] have mm: "m = mostImportantSegment this"
    by simp
  have "mostImportantSegmentPercentage this = Fin ?p
     \<and> textLengthMin this = paramNumber lmin
     \<and> textLengthMax this =
         (if paramNumber lmax * Fin ?p < paramNumber lmin then PInf else paramNumber lmax)"
    using arg_cong [OF eq [unfolded mm], of mostImportantSegmentPercentage]
      arg_cong [OF eq [unfolded mm], of textLengthMin]
      arg_cong [OF eq [unfolded mm], of textLengthMax]
    by (simp add: pct)
  with p0 p1 show ?thesis by blast
qed

lemma part0_raw:
  assumes c: "StructureStripContent_part0 segs sl mode tx lmin lmax = Inr this"
    and pos: "\<forall>s\<in>set segs. 0 < getWeight s"
  shows "rawReferenceLength_part0 this =
      Fin (max (of_nat (length (getText (segs ! mostImportantSegment this))))
               (of_int (getWeight (segs ! mostImportantSegment this))
                  / of_int (greatestCommonDivisor this)))"
    and "0 < max (of_nat (length (getText (segs ! mostImportantSegment this))) :: rat)
               (of_int (getWeight (segs ! mostImportantSegment this))
                  / of_int (greatestCommonDivisor this))"
proof -
  note p = part0_positive [OF c pos]
  show "rawReferenceLength_part0 this =
      Fin (max (of_nat (length (getText (segs ! mostImportantSegment this))))
               (of_int (getWeight (segs ! mostImportantSegment this))
                  / of_int (greatestCommonDivisor this)))"
    using p(5) by (simp add: rawReferenceLength_part0_def p(1) num_def Math_max_Fin)
  from p(4,5) have "(0::rat) < of_int (getWeight (segs ! mostImportantSegment this))
                  / of_int (greatestCommonDivisor this)" by simp
  then show "0 < max (of_nat (length (getText (segs ! mostImportantSegment this))) :: rat)
               (of_int (getWeight (segs ! mostImportantSegment this))
                  / of_int (greatestCommonDivisor this))" by (simp add: less_max_iff_disj)
qed

text \<open>The possible outcomes of the two clamps, for a raw reference length \<open>r\<close> and a
  reference share \<open>p\<close>.\<close>

lemma clamp_cases:
  assumes r: "0 < r" and p: "0 < p" "p \<le> 1"
    and raw: "rawReferenceLength_part0 this = Fin r"
    and pct: "mostImportantSegmentPercentage this = Fin p"
    and lo: "textLengthMin this = paramNumber lmin"
    and hi: "textLengthMax this =
         (if paramNumber lmax * Fin p < paramNumber lmin then PInf else paramNumber lmax)"
  shows "(\<exists>a. lmin = Some a \<and> r < a * p
            \<and> textLengthMin this * mostImportantSegmentPercentage this = Fin (a * p)
            \<and> \<not> rawReferenceLength_part0 this
                  > textLengthMax this * mostImportantSegmentPercentage this
            \<and> clampedReference_part0 this = (Fin (a * p), Fin 0))
       \<or> (\<exists>b. lmax = Some b \<and> b * p < r
            \<and> textLengthMax this * mostImportantSegmentPercentage this = Fin (b * p)
            \<and> \<not> rawReferenceLength_part0 this
                  < textLengthMin this * mostImportantSegmentPercentage this
            \<and> clampedReference_part0 this = (Fin (b * p), Fin 0))
       \<or> (\<not> rawReferenceLength_part0 this
                  < textLengthMin this * mostImportantSegmentPercentage this
            \<and> \<not> rawReferenceLength_part0 this
                  > textLengthMax this * mostImportantSegmentPercentage this
            \<and> clampedReference_part0 this = (Fin r, Fin (slack this / 100)))"
proof -
  have ap: "a * p \<le> a" if "0 < a" for a :: rat
    using that p by (simp add: mult_left_le)
  show ?thesis
  proof (cases lmin)
    case None
    show ?thesis
    proof (cases lmax)
      case N2: None
      show ?thesis
        using r p by (simp add: clampedReference_part0_def raw pct lo hi None N2 Let_def)
    next
      case (Some b)
      show ?thesis
        using r p by (simp add: clampedReference_part0_def raw pct lo hi None Some Let_def)
    qed
  next
    case (Some a)
    show ?thesis
    proof (cases lmax)
      case None
      show ?thesis
        using r p by (simp add: clampedReference_part0_def raw pct lo hi None Some Let_def)
    next
      case S2: (Some b)
      show ?thesis
      proof (cases "b * p < a")
        case True
        then show ?thesis
          using r p by (simp add: clampedReference_part0_def raw pct lo hi Some S2 Let_def)
      next
        case False
        show ?thesis
        proof (cases "r < a * p")
          case T: True
          with r have "0 < a * p" by simp
          with p have "0 < a" by (simp add: zero_less_mult_iff)
          from ap [OF this] False have "a * p \<le> b * p" by simp
          with T have "\<not> b * p < a * p" "\<not> b * p < r" by simp_all
          with T False show ?thesis
            using r p by (simp add: clampedReference_part0_def raw pct lo hi Some S2 Let_def)
        next
          case F: False
          with False show ?thesis
            using r p by (simp add: clampedReference_part0_def raw pct lo hi Some S2 Let_def)
        qed
      qed
    qed
  qed
qed


lemma part0_clamp_cases:
  assumes c: "StructureStripContent_part0 segs sl mode tx lmin lmax = Inr this"
    and pos: "\<forall>s\<in>set segs. 0 < getWeight s"
  shows "\<exists>r p. 0 < r \<and> 0 < p \<and> p \<le> 1 \<and> rawReferenceLength_part0 this = Fin r \<and>
       ((\<exists>a. lmin = Some a \<and> r < a * p
            \<and> textLengthMin this * mostImportantSegmentPercentage this = Fin (a * p)
            \<and> \<not> rawReferenceLength_part0 this
                  > textLengthMax this * mostImportantSegmentPercentage this
            \<and> clampedReference_part0 this = (Fin (a * p), Fin 0))
       \<or> (\<exists>b. lmax = Some b \<and> b * p < r
            \<and> textLengthMax this * mostImportantSegmentPercentage this = Fin (b * p)
            \<and> \<not> rawReferenceLength_part0 this
                  < textLengthMin this * mostImportantSegmentPercentage this
            \<and> clampedReference_part0 this = (Fin (b * p), Fin 0))
       \<or> (\<not> rawReferenceLength_part0 this
                  < textLengthMin this * mostImportantSegmentPercentage this
            \<and> \<not> rawReferenceLength_part0 this
                  > textLengthMax this * mostImportantSegmentPercentage this
            \<and> clampedReference_part0 this = (Fin r, Fin (slack this / 100))))"
proof -
  from part0_bounds [OF c pos] obtain p where p: "0 < p" "p \<le> 1"
    "mostImportantSegmentPercentage this = Fin p" "textLengthMin this = paramNumber lmin"
    "textLengthMax this =
         (if paramNumber lmax * Fin p < paramNumber lmin then PInf else paramNumber lmax)"
    by blast
  from clamp_cases [OF part0_raw(2) [OF c pos] p(1,2) part0_raw(1) [OF c pos] p(3,4,5)]
    part0_raw(2) [OF c pos] part0_raw(1) [OF c pos] p(1,2)
  show ?thesis by blast
qed



section \<open>Gaps\<close>

lemma part0_band:
  assumes c: "StructureStripContent_part0 segs sl mode tx lmin lmax = Inr this"
    and pos: "\<forall>s\<in>set segs. 0 < getWeight s"
  shows "\<exists>x y. clampedReference_part0 this = (Fin x, Fin y)
     \<and> normalizedLengthMax_part0 this
          = Fin (x / of_int (getWeight (segs ! mostImportantSegment this)) * (1 + y))
     \<and> normalizedLengthMin_part0 this
          = Fin (x / of_int (getWeight (segs ! mostImportantSegment this)) * (1 - y))"
proof -
  note p = part0_positive [OF c pos]
  from part0_clamp_cases [OF c pos]
  obtain x y where xy: "clampedReference_part0 this = (Fin x, Fin y)" by blast
  from p(4) have "normalizedLengthMax_part0 this
          = Fin (x / of_int (getWeight (segs ! mostImportantSegment this)) * (1 + y))"
    "normalizedLengthMin_part0 this
          = Fin (x / of_int (getWeight (segs ! mostImportantSegment this)) * (1 - y))"
    by (simp_all add: normalizedLengthMax_part0_def normalizedLengthMin_part0_def
        normalizedReferenceLength_part0_def xy p(1) num_def Fin_minus)
  with xy show ?thesis by blast
qed

lemma floor_gap_positive:
  fixes e :: rat
  assumes "0 < e" and "\<lfloor>e\<rfloor> \<noteq> 0"
  shows "0 < \<lfloor>e\<rfloor>"
proof -
  from assms(1) have "0 \<le> \<lfloor>e\<rfloor>" by simp
  with assms(2) show ?thesis by linarith
qed

lemma verdict_shape:
  fixes f c :: int and P Q :: bool
  assumes v_def: "v = (if P then (if f = 0 then Suppressed else TooLong (num f))
                  else if Q then TooShort (num c) else Alright)"
  shows "v = TooLong gap \<Longrightarrow> P \<and> f \<noteq> 0 \<and> gap = num f"
    and "v = TooShort gap \<Longrightarrow> \<not> P \<and> Q \<and> gap = num c"
    and "v = Suppressed \<Longrightarrow> P \<and> f = 0"
    and "v = Alright \<Longrightarrow> \<not> P \<and> \<not> Q"
  by (auto simp: v_def split: if_splits)

lemma segmentVerdict_gaps:
  assumes w: "0 < getWeight segment"
  shows "(segmentVerdict (Fin mx) (Fin mn) segment = TooLong gap \<longrightarrow>
            (\<exists>n. 0 < n \<and> gap = num n))
       \<and> (segmentVerdict (Fin mx) (Fin mn) segment = TooShort gap \<longrightarrow>
            (\<exists>n. 0 < n \<and> gap = num n))"
proof -
  let ?w = "of_int (getWeight segment) :: rat"
  let ?nl = "of_nat (length (getText segment)) / ?w"
  from w have wp: "0 < ?w" by simp
  have long: "0 < \<lfloor>(?nl - mx) * ?w\<rfloor>" if "mx < ?nl" "\<lfloor>(?nl - mx) * ?w\<rfloor> \<noteq> 0"
  proof -
    from that(1) wp have "0 < (?nl - mx) * ?w" by simp
    from floor_gap_positive [OF this that(2)] show ?thesis .
  qed
  have short: "0 < \<lceil>(mn - ?nl) * ?w\<rceil>" if "?nl < mn"
  proof -
    from that wp have "0 < (mn - ?nl) * ?w" by simp
    then show ?thesis by simp
  qed
  show ?thesis
    unfolding segmentVerdict_Fin [OF w] Let_def
    using long short by (blast dest: verdict_shape(1,2) [OF refl])
qed

lemma segmentVerdict_part0_gaps:
  assumes w: "0 < getWeight segment"
  shows "(segmentVerdict_part0 (Fin mx) (Fin mn) segment = TooLong gap \<longrightarrow>
            (\<exists>n. 0 < n \<and> gap = num n))
       \<and> (segmentVerdict_part0 (Fin mx) (Fin mn) segment = TooShort gap \<longrightarrow>
            (\<exists>n. 0 \<le> n \<and> gap = num n))"
proof -
  let ?w = "of_int (getWeight segment) :: rat"
  let ?nl = "of_nat (length (getText segment)) / ?w"
  from w have wp: "0 < ?w" by simp
  have long: "0 < \<lfloor>(?nl - mx) * ?w + 1 / 2\<rfloor>"
    if "mx < ?nl" "\<lfloor>(?nl - mx) * ?w + 1 / 2\<rfloor> \<noteq> 0"
  proof -
    from that(1) wp have "0 < (?nl - mx) * ?w" by simp
    then have "0 < (?nl - mx) * ?w + 1 / 2" by simp
    from floor_gap_positive [OF this that(2)] show ?thesis .
  qed
  have short: "0 \<le> \<lfloor>(mn - ?nl) * ?w + 1 / 2\<rfloor>" if "?nl < mn"
  proof -
    from that wp have "0 < (mn - ?nl) * ?w" by simp
    then have "0 \<le> (mn - ?nl) * ?w + 1 / 2" by simp
    then show ?thesis by simp
  qed
  show ?thesis
    unfolding segmentVerdict_part0_Fin [OF w] Let_def
    using long short by (blast dest: verdict_shape(1,2) [OF refl])
qed

lemma content_band_Fin:
  assumes c: "StructureStripContent segs sl mode tx = Inr this"
    and pos: "\<forall>s\<in>set segs. 0 < getWeight s"
  shows "\<exists>mx mn. normalizedLengthMax this = Fin mx \<and> normalizedLengthMin this = Fin mn"
  using content_band [OF c pos] by blast

lemma buildFeedbackTexts_nth:
  "i < length (segments this) \<Longrightarrow>
     buildFeedbackTexts this textTemplates ! i
       = feedbackText textTemplates (segments this ! i) (verdicts this ! i)"
  by (simp add: buildFeedbackTexts_def verdicts_def)

lemma buildFeedbackTexts_part0_nth:
  "i < length (segments this) \<Longrightarrow>
     buildFeedbackTexts_part0 this textTemplates ! i
       = feedbackText textTemplates (segments this ! i) (verdicts_part0 this ! i)"
  by (simp add: buildFeedbackTexts_part0_def verdicts_part0_def)

lemma zero_gap_suppressed:
  assumes "normalizedLength segment > lengthMax"
    and "Math_floor ((normalizedLength segment - lengthMax) * num (getWeight segment)) = Fin 0"
  shows "segmentVerdict lengthMax lengthMin segment = Suppressed"
  using assms by (simp add: segmentVerdict_def Let_def)

lemma zero_gap_suppressed_part0:
  assumes "normalizedLength segment > lengthMax"
    and "Math_round ((normalizedLength segment - lengthMax) * num (getWeight segment)) = Fin 0"
  shows "segmentVerdict_part0 lengthMax lengthMin segment = Suppressed"
  using assms by (simp add: segmentVerdict_part0_def Let_def)

text \<open>
  C4. For segments of positive weights, every gap that either variant reports for a too
  long or too short segment is a non-negative integer. A segment whose normalized length
  is above the band and whose rounded gap is 0 gets the entry \<open>null\<close>, whatever the
  \<open>alright\<close> template is.
\<close>

theorem gaps_nonnegative_and_zero_gap_suppressed:
  assumes a: "StructureStripContent segs sl mode tx = Inr this"
    and b: "StructureStripContent_part0 segs sl mode tx lmin lmax = Inr this0"
    and pos: "\<forall>s\<in>set segs. 0 < getWeight s"
  shows "(\<forall>v\<in>set (verdicts this) \<union> set (verdicts_part0 this0).
            \<forall>gap. v = TooLong gap \<or> v = TooShort gap \<longrightarrow> (\<exists>n. 0 \<le> n \<and> gap = num n))
       \<and> (\<forall>i<length segs.
            normalizedLength (segs ! i) > normalizedLengthMax this \<longrightarrow>
            Math_floor ((normalizedLength (segs ! i) - normalizedLengthMax this)
                          * num (getWeight (segs ! i))) = Fin 0 \<longrightarrow>
            verdicts this ! i = Suppressed \<and> buildFeedbackTexts this textTemplates ! i = None)
       \<and> (\<forall>i<length segs.
            normalizedLength (segs ! i) > normalizedLengthMax_part0 this0 \<longrightarrow>
            Math_round ((normalizedLength (segs ! i) - normalizedLengthMax_part0 this0)
                          * num (getWeight (segs ! i))) = Fin 0 \<longrightarrow>
            verdicts_part0 this0 ! i = Suppressed
              \<and> buildFeedbackTexts_part0 this0 textTemplates ! i = None)"
proof (intro conjI)
  note pa = content_positive [OF a pos] and pb = part0_positive [OF b pos]
  from content_band_Fin [OF a pos] obtain mx mn
    where band: "normalizedLengthMax this = Fin mx" "normalizedLengthMin this = Fin mn" by blast
  from part0_band [OF b pos] obtain mx0 mn0
    where band0: "normalizedLengthMax_part0 this0 = Fin mx0"
      "normalizedLengthMin_part0 this0 = Fin mn0" by blast
  show "\<forall>v\<in>set (verdicts this) \<union> set (verdicts_part0 this0).
            \<forall>gap. v = TooLong gap \<or> v = TooShort gap \<longrightarrow> (\<exists>n. 0 \<le> n \<and> gap = num n)"
  proof (intro ballI allI impI)
    fix v gap
    assume v: "v \<in> set (verdicts this) \<union> set (verdicts_part0 this0)"
      and g: "v = TooLong gap \<or> v = TooShort gap"
    from v consider s where "s \<in> set segs" "v = segmentVerdict (Fin mx) (Fin mn) s"
      | s where "s \<in> set segs" "v = segmentVerdict_part0 (Fin mx0) (Fin mn0) s"
      by (auto simp: verdicts_def verdicts_part0_def pa(1) pb(1) band band0)
    then show "\<exists>n. 0 \<le> n \<and> gap = num n"
    proof cases
      case 1
      with pos have "0 < getWeight s" by simp
      from segmentVerdict_gaps [OF this, of mx mn gap] 1(2) g
      obtain n where "0 < n" "gap = num n" by auto
      then show ?thesis by (intro exI [of _ n]) simp
    next
      case 2
      with pos have "0 < getWeight s" by simp
      from segmentVerdict_part0_gaps [OF this, of mx0 mn0 gap] 2(2) g
      show ?thesis by (auto intro: less_imp_le)
    qed
  qed
  show "\<forall>i<length segs.
            normalizedLength (segs ! i) > normalizedLengthMax this \<longrightarrow>
            Math_floor ((normalizedLength (segs ! i) - normalizedLengthMax this)
                          * num (getWeight (segs ! i))) = Fin 0 \<longrightarrow>
            verdicts this ! i = Suppressed \<and> buildFeedbackTexts this textTemplates ! i = None"
    by (simp add: buildFeedbackTexts_nth pa(1) verdicts_def zero_gap_suppressed)
  show "\<forall>i<length segs.
            normalizedLength (segs ! i) > normalizedLengthMax_part0 this0 \<longrightarrow>
            Math_round ((normalizedLength (segs ! i) - normalizedLengthMax_part0 this0)
                          * num (getWeight (segs ! i))) = Fin 0 \<longrightarrow>
            verdicts_part0 this0 ! i = Suppressed
              \<and> buildFeedbackTexts_part0 this0 textTemplates ! i = None"
    by (simp add: buildFeedbackTexts_part0_nth pb(1) verdicts_part0_def zero_gap_suppressed_part0)
qed

theorem gaps_nonnegative_and_zero_gap_suppressed_witness:
  "\<exists>this this0.
      StructureStripContent
        [\<lparr>getTitle = ''Intro'', getWeight = 2, getText = ''abc''\<rparr>,
         \<lparr>getTitle = ''Body'', getWeight = 3, getText = ''abc''\<rparr>,
         \<lparr>getTitle = ''End'', getWeight = 1, getText = []\<rparr>] 40 ''onRequest'' \<lparr>l10n_tooLong = ''too long'', l10n_tooShort = ''too short'',
           l10n_segmentTooLong = ''@title: remove @chars'',
           l10n_segmentTooShort = ''@title: add @chars'',
           l10n_allSegmentsGood = ''good''\<rparr> = Inr this
    \<and> StructureStripContent_part0
        [\<lparr>getTitle = ''Intro'', getWeight = 2, getText = ''abc''\<rparr>,
         \<lparr>getTitle = ''Body'', getWeight = 3, getText = ''abc''\<rparr>,
         \<lparr>getTitle = ''End'', getWeight = 1, getText = []\<rparr>] 40 ''onRequest'' \<lparr>l10n_tooLong = ''too long'', l10n_tooShort = ''too short'',
           l10n_segmentTooLong = ''@title: remove @chars'',
           l10n_segmentTooShort = ''@title: add @chars'',
           l10n_allSegmentsGood = ''good''\<rparr> None None
        = Inr this0
    \<and> verdicts this = [Suppressed, Alright, TooShort (num 1)]
    \<and> verdicts_part0 this0 = [Suppressed, Alright, TooShort (num 1)]
    \<and> (\<exists>n. 0 \<le> n \<and> num 1 = num n)
    \<and> buildFeedbackTexts this
         \<lparr>alright = Some ''fine'', tooLong = ''remove @chars'', tooShort = ''add @chars''\<rparr> ! 0
        = None
    \<and> buildFeedbackTexts_part0 this0
         \<lparr>alright = Some ''fine'', tooLong = ''remove @chars'', tooShort = ''add @chars''\<rparr> ! 0
        = None"
proof -
  let ?segs = "[\<lparr>getTitle = ''Intro'', getWeight = 2, getText = ''abc''\<rparr>,
         \<lparr>getTitle = ''Body'', getWeight = 3, getText = ''abc''\<rparr>,
         \<lparr>getTitle = ''End'', getWeight = 1, getText = []\<rparr>]"
  let ?tpl = "\<lparr>alright = Some ''fine'', tooLong = ''remove @chars'', tooShort = ''add @chars''\<rparr>"
  have pos: "\<forall>s\<in>set ?segs. 0 < getWeight s" by simp
  have ne: "?segs \<noteq> []" by simp
  from StructureStripContent_succeeds [OF ne]
  obtain a where a: "StructureStripContent ?segs 40 ''onRequest'' \<lparr>l10n_tooLong = ''too long'', l10n_tooShort = ''too short'',
           l10n_segmentTooLong = ''@title: remove @chars'',
           l10n_segmentTooShort = ''@title: add @chars'',
           l10n_allSegmentsGood = ''good''\<rparr> = Inr a" by blast
  from StructureStripContent_part0_succeeds [OF ne]
  obtain b where b: "StructureStripContent_part0 ?segs 40 ''onRequest'' \<lparr>l10n_tooLong = ''too long'', l10n_tooShort = ''too short'',
           l10n_segmentTooLong = ''@title: remove @chars'',
           l10n_segmentTooShort = ''@title: add @chars'',
           l10n_allSegmentsGood = ''good''\<rparr> None None = Inr b"
    by blast
  have "case StructureStripContent ?segs 40 ''onRequest'' \<lparr>l10n_tooLong = ''too long'', l10n_tooShort = ''too short'',
           l10n_segmentTooLong = ''@title: remove @chars'',
           l10n_segmentTooShort = ''@title: add @chars'',
           l10n_allSegmentsGood = ''good''\<rparr> of
          Inl e \<Rightarrow> False
        | Inr this \<Rightarrow> verdicts this = [Suppressed, Alright, TooShort (num 1)]
            \<and> normalizedLength (?segs ! 0) > normalizedLengthMax this
            \<and> Math_floor ((normalizedLength (?segs ! 0) - normalizedLengthMax this)
                  * num (getWeight (?segs ! 0))) = Fin 0"
    by code_simp
  with a have ea: "verdicts a = [Suppressed, Alright, TooShort (num 1)]"
    "normalizedLength (?segs ! 0) > normalizedLengthMax a"
    "Math_floor ((normalizedLength (?segs ! 0) - normalizedLengthMax a)
                  * num (getWeight (?segs ! 0))) = Fin 0" by simp_all
  have "case StructureStripContent_part0 ?segs 40 ''onRequest'' \<lparr>l10n_tooLong = ''too long'', l10n_tooShort = ''too short'',
           l10n_segmentTooLong = ''@title: remove @chars'',
           l10n_segmentTooShort = ''@title: add @chars'',
           l10n_allSegmentsGood = ''good''\<rparr> None None of
          Inl e \<Rightarrow> False
        | Inr this \<Rightarrow> verdicts_part0 this = [Suppressed, Alright, TooShort (num 1)]
            \<and> normalizedLength (?segs ! 0) > normalizedLengthMax_part0 this
            \<and> Math_round ((normalizedLength (?segs ! 0) - normalizedLengthMax_part0 this)
                  * num (getWeight (?segs ! 0))) = Fin 0"
    by code_simp
  with b have eb: "verdicts_part0 b = [Suppressed, Alright, TooShort (num 1)]"
    "normalizedLength (?segs ! 0) > normalizedLengthMax_part0 b"
    "Math_round ((normalizedLength (?segs ! 0) - normalizedLengthMax_part0 b)
                  * num (getWeight (?segs ! 0))) = Fin 0" by simp_all
  note t = gaps_nonnegative_and_zero_gap_suppressed [OF a b pos, of ?tpl]
  from t have "\<forall>v\<in>set (verdicts a) \<union> set (verdicts_part0 b).
            \<forall>gap. v = TooLong gap \<or> v = TooShort gap \<longrightarrow> (\<exists>n. 0 \<le> n \<and> gap = num n)"
    by blast
  then have g: "\<exists>n. 0 \<le> n \<and> num 1 = num n" unfolding ea(1) eb(1) by simp
  from t have "\<forall>i<length ?segs.
            normalizedLength (?segs ! i) > normalizedLengthMax a \<longrightarrow>
            Math_floor ((normalizedLength (?segs ! i) - normalizedLengthMax a)
                          * num (getWeight (?segs ! i))) = Fin 0 \<longrightarrow>
            verdicts a ! i = Suppressed \<and> buildFeedbackTexts a ?tpl ! i = None" by blast
  from this [rule_format, of 0] ea(2,3) have na: "buildFeedbackTexts a ?tpl ! 0 = None" by simp
  from t have "\<forall>i<length ?segs.
            normalizedLength (?segs ! i) > normalizedLengthMax_part0 b \<longrightarrow>
            Math_round ((normalizedLength (?segs ! i) - normalizedLengthMax_part0 b)
                          * num (getWeight (?segs ! i))) = Fin 0 \<longrightarrow>
            verdicts_part0 b ! i = Suppressed \<and> buildFeedbackTexts_part0 b ?tpl ! i = None"
    by blast
  from this [rule_format, of 0] eb(2,3) have nb: "buildFeedbackTexts_part0 b ?tpl ! 0 = None"
    by simp
  from a b ea(1) eb(1) g na nb show ?thesis by blast
qed

section \<open>The reference segment against its own band\<close>

lemma content_reference_Fin:
  assumes c: "StructureStripContent segs sl mode tx = Inr this"
    and pos: "\<forall>s\<in>set segs. 0 < getWeight s"
  shows "normalizedReferenceLength this =
      Fin (max (of_nat (length (getText (segs ! mostImportantSegment this))))
               (of_int (getWeight (segs ! mostImportantSegment this))
                  / of_int (greatestCommonDivisor this))
            / of_int (getWeight (segs ! mostImportantSegment this)))"
proof -
  note p = content_positive [OF c pos]
  have r: "referenceLength this =
      Fin (max (of_nat (length (getText (segs ! mostImportantSegment this))))
               (of_int (getWeight (segs ! mostImportantSegment this))
                  / of_int (greatestCommonDivisor this)))"
    using p(5) by (simp add: referenceLength_def p(1) num_def Math_max_Fin)
  show ?thesis
    using p(4) by (simp add: normalizedReferenceLength_def r p(1) num_def)
qed

lemma normalizedLength_Fin:
  "0 < getWeight segment \<Longrightarrow>
     normalizedLength segment
       = Fin (of_nat (length (getText segment)) / of_int (getWeight segment))"
  by (simp add: normalizedLength_def num_def)

text \<open>
  C10. In h5p-structure-strip-content.js, for segments of positive weights and a slack
  that is not negative, the normalized length of the reference segment is at most the
  normalized reference length, which is at most the upper end of the band: the reference
  segment is never in the branch of the too long segments.
\<close>

theorem reference_never_too_long:
  assumes c: "StructureStripContent segs sl mode tx = Inr this"
    and pos: "\<forall>s\<in>set segs. 0 < getWeight s"
    and slack: "0 \<le> sl"
  shows "normalizedLength (segs ! mostImportantSegment this) \<le> normalizedReferenceLength this
       \<and> normalizedReferenceLength this \<le> normalizedLengthMax this
       \<and> \<not> normalizedLength (segs ! mostImportantSegment this) > normalizedLengthMax this
       \<and> verdictClass (verdicts this ! mostImportantSegment this) \<noteq> ClassTooLong"
proof -
  note p = content_positive [OF c pos]
  let ?m = "mostImportantSegment this"
  let ?w = "of_int (getWeight (segs ! ?m)) :: rat"
  let ?L = "of_nat (length (getText (segs ! ?m))) :: rat"
  let ?r = "max ?L (?w / of_int (greatestCommonDivisor this))"
  from p(4) have w: "0 < ?w" by simp
  have nl: "normalizedLength (segs ! ?m) = Fin (?L / ?w)"
    using p(4) by (rule normalizedLength_Fin)
  have nr: "normalizedReferenceLength this = Fin (?r / ?w)"
    by (rule content_reference_Fin [OF c pos])
  have mx: "normalizedLengthMax this = Fin (?r / ?w * (1 + sl / 100))"
    using content_band(2) [OF c pos] by (simp add: spec_band_def Let_def)
  have mn: "normalizedLengthMin this = Fin (?r / ?w * (1 - sl / 100))"
    using content_band(1) [OF c pos] by (simp add: spec_band_def Let_def)
  have 1: "?L / ?w \<le> ?r / ?w" using w by (simp add: divide_right_mono)
  have r0: "0 \<le> ?r / ?w" using w by (simp add: le_max_iff_disj)
  from slack have "1 \<le> 1 + sl / 100" by simp
  from mult_left_mono [OF this r0] have 2: "?r / ?w \<le> ?r / ?w * (1 + sl / 100)" by simp
  from 1 2 have 3: "\<not> ?L / ?w > ?r / ?w * (1 + sl / 100)" by simp
  have v: "verdicts this ! ?m = segmentVerdict (Fin (?r / ?w * (1 + sl / 100)))
              (Fin (?r / ?w * (1 - sl / 100))) (segs ! ?m)"
    using p(3) by (simp add: verdicts_def p(1) mx mn)
  have "verdictClass (verdicts this ! ?m) \<noteq> ClassTooLong"
    unfolding v segmentVerdict_Fin [OF p(4)] Let_def using 3 by simp
  with 1 2 3 show ?thesis by (simp add: nl nr mx Fin_le)
qed

theorem reference_never_too_long_witness:
  "\<exists>this. StructureStripContent
        [\<lparr>getTitle = ''Intro'', getWeight = 1, getText = ''Hi''\<rparr>,
         \<lparr>getTitle = ''Body'', getWeight = 3, getText = ''abcdef''\<rparr>] 10 ''onRequest'' \<lparr>l10n_tooLong = ''too long'', l10n_tooShort = ''too short'',
           l10n_segmentTooLong = ''@title: remove @chars'',
           l10n_segmentTooShort = ''@title: add @chars'',
           l10n_allSegmentsGood = ''good''\<rparr> = Inr this
    \<and> mostImportantSegment this = 1
    \<and> normalizedReferenceLength this = Fin 2
    \<and> normalizedLengthMax this = Fin (11 / 5)
    \<and> verdicts this ! 1 = Alright
    \<and> \<not> normalizedLength \<lparr>getTitle = ''Body'', getWeight = 3, getText = ''abcdef''\<rparr>
           > normalizedLengthMax this"
proof -
  let ?segs = "[\<lparr>getTitle = ''Intro'', getWeight = 1, getText = ''Hi''\<rparr>,
         \<lparr>getTitle = ''Body'', getWeight = 3, getText = ''abcdef''\<rparr>]"
  have pos: "\<forall>s\<in>set ?segs. 0 < getWeight s" by simp
  have ne: "?segs \<noteq> []" by simp
  from StructureStripContent_succeeds [OF ne]
  obtain a where a: "StructureStripContent ?segs 10 ''onRequest'' \<lparr>l10n_tooLong = ''too long'', l10n_tooShort = ''too short'',
           l10n_segmentTooLong = ''@title: remove @chars'',
           l10n_segmentTooShort = ''@title: add @chars'',
           l10n_allSegmentsGood = ''good''\<rparr> = Inr a" by blast
  have "case StructureStripContent ?segs 10 ''onRequest'' \<lparr>l10n_tooLong = ''too long'', l10n_tooShort = ''too short'',
           l10n_segmentTooLong = ''@title: remove @chars'',
           l10n_segmentTooShort = ''@title: add @chars'',
           l10n_allSegmentsGood = ''good''\<rparr> of
          Inl e \<Rightarrow> False
        | Inr this \<Rightarrow> mostImportantSegment this = 1
            \<and> normalizedReferenceLength this = Fin 2
            \<and> normalizedLengthMax this = Fin (11 / 5)
            \<and> verdicts this ! 1 = Alright"
    by code_simp
  with a have e: "mostImportantSegment a = 1" "normalizedReferenceLength a = Fin 2"
    "normalizedLengthMax a = Fin (11 / 5)" "verdicts a ! 1 = Alright" by simp_all
  from reference_never_too_long [OF a pos] e(1)
  have "\<not> normalizedLength \<lparr>getTitle = ''Body'', getWeight = 3, getText = ''abcdef''\<rparr>
           > normalizedLengthMax a" by simp
  with a e show ?thesis by blast
qed

section \<open>A greatest common divisor of zero\<close>

lemma Util_greatestCommonDivisor_nonzero:
  "a \<noteq> 0 \<Longrightarrow> Util_greatestCommonDivisor a b \<noteq> 0"
proof (induction a b rule: Util_greatestCommonDivisor.induct)
  case (1 a b)
  show ?case
  proof (cases "b = 0")
    case True
    with "1.prems" show ?thesis by (simp add: Util_greatestCommonDivisor_zero)
  next
    case False
    from "1.IH" [OF False False] False show ?thesis
      by (simp add: Util_greatestCommonDivisor_step)
  qed
qed

lemma foldl_gcd_nonzero:
  "x \<noteq> 0 \<Longrightarrow>
     foldl (\<lambda>previous current.
        if previous = 0 then 1 else Util_greatestCommonDivisor previous current) x ws \<noteq> 0"
  by (induction ws arbitrary: x) (simp_all add: Util_greatestCommonDivisor_nonzero)

lemma gcdArray_zero_iff:
  "Util_greatestCommonDivisorArray ws = Inr 0 \<longleftrightarrow> ws = [0]"
proof (cases ws)
  case Nil
  then show ?thesis by (simp add: Util_greatestCommonDivisorArray_def reduce_def)
next
  case (Cons x rest)
  show ?thesis
  proof (cases rest)
    case Nil
    with Cons show ?thesis by (simp add: Util_greatestCommonDivisorArray_def reduce_def)
  next
    case (Cons c cs)
    let ?f = "\<lambda>previous current.
        if previous = 0 then 1 else Util_greatestCommonDivisor previous current"
    have "?f x c \<noteq> 0" by (simp add: Util_greatestCommonDivisor_nonzero)
    from foldl_gcd_nonzero [OF this, of cs] have "foldl ?f x (c # cs) \<noteq> 0" by simp
    with \<open>ws = x # rest\<close> Cons show ?thesis
      by (simp add: Util_greatestCommonDivisorArray_def reduce_def)
  qed
qed

lemma constructors_fail_iff_empty:
  "(StructureStripContent segs sl mode tx = Inl TypeError \<longleftrightarrow> segs = [])
   \<and> (StructureStripContent_part0 segs sl mode tx lmin lmax = Inl TypeError \<longleftrightarrow> segs = [])"
proof (cases "segs = []")
  case True
  then show ?thesis
    by (simp add: StructureStripContent_def StructureStripContent_part0_def
        determineReference_empty)
next
  case False
  from StructureStripContent_succeeds [OF False, of sl mode tx]
    StructureStripContent_part0_succeeds [OF False, of sl mode tx lmin lmax] False
  show ?thesis by auto
qed

lemma NaN_band_alright:
  "segmentVerdict NaN NaN segment = Alright" "segmentVerdict_part0 NaN NaN segment = Alright"
proof -
  have "\<not> x < NaN" "\<not> NaN < x" for x :: number by (cases x; simp)+
  then show "segmentVerdict NaN NaN segment = Alright"
    "segmentVerdict_part0 NaN NaN segment = Alright"
    by (simp_all add: segmentVerdict_def segmentVerdict_part0_def Let_def)
qed

lemma NaN_ops:
  "NaN * x = NaN" "NaN / x = NaN" "Math_max x NaN = NaN" "\<not> x < NaN" "\<not> NaN < x"
  by (cases x; simp add: Math_max_def)+

lemma zero_gcd_content:
  assumes c: "StructureStripContent segs sl mode tx = Inr this"
    and g: "greatestCommonDivisor this = 0"
  shows "(\<exists>s. segs = [s] \<and> getWeight s = 0) \<and> verdicts this = [Alright]"
proof -
  note f = StructureStripContent_fields [OF c]
  from f g have "map getWeight segs = [0]" by (simp add: gcdArray_zero_iff)
  then obtain s where s: "segs = [s]" "getWeight s = 0" by (cases segs) auto
  from f s have m: "mostImportantSegment this = 0"
    by (simp add: determineReference_def reduce_def)
  have "normalizedReferenceLength this = NaN"
    by (simp add: normalizedReferenceLength_def referenceLength_def f s m g num_def NaN_ops)
  then have "normalizedLengthMax this = NaN" "normalizedLengthMin this = NaN"
    by (simp_all add: normalizedLengthMax_def normalizedLengthMin_def NaN_ops)
  with f s show ?thesis by (simp add: verdicts_def NaN_band_alright)
qed

lemma zero_gcd_part0:
  assumes c: "StructureStripContent_part0 segs sl mode tx lmin lmax = Inr this"
    and g: "greatestCommonDivisor this = 0"
  shows "(\<exists>s. segs = [s] \<and> getWeight s = 0) \<and> verdicts_part0 this = [Alright]"
proof -
  note f = StructureStripContent_part0_fields [OF c]
  from f g have "map getWeight segs = [0]" by (simp add: gcdArray_zero_iff)
  then obtain s where s: "segs = [s]" "getWeight s = 0" by (cases segs) auto
  from f s have m: "mostImportantSegment this = 0"
    by (simp add: determineReference_def reduce_def)
  have raw: "rawReferenceLength_part0 this = NaN"
    by (simp add: rawReferenceLength_part0_def f s m g num_def NaN_ops)
  have "fst (clampedReference_part0 this) = NaN"
    by (simp add: clampedReference_part0_def raw NaN_ops Let_def)
  then have "normalizedReferenceLength_part0 this = NaN"
    by (simp add: normalizedReferenceLength_part0_def NaN_ops)
  then have "normalizedLengthMax_part0 this = NaN" "normalizedLengthMin_part0 this = NaN"
    by (simp_all add: normalizedLengthMax_part0_def normalizedLengthMin_part0_def NaN_ops)
  with f s show ?thesis by (simp add: verdicts_part0_def NaN_band_alright)
qed

lemma buildFeedbackTexts_verdicts:
  "buildFeedbackTexts this textTemplates
     = map2 (feedbackText textTemplates) (segments this) (verdicts this)"
  "buildFeedbackTexts_part0 this0 textTemplates
     = map2 (feedbackText textTemplates) (segments this0) (verdicts_part0 this0)"
  by (simp_all add: buildFeedbackTexts_def verdicts_def buildFeedbackTexts_part0_def
      verdicts_part0_def zip_map2 zip_same_conv_map)

text \<open>
  C9, as the code has it. No evaluation fails and the code has no \<open>InvalidWeightError\<close>:
  the only failure is the \<open>TypeError\<close> of the constructor for an empty segment list, and
  \<open>buildFeedbackTexts\<close> returns one entry per segment. The greatest common divisor is 0
  exactly for a single segment of weight 0; the band is then \<open>NaN\<close>, no comparison holds
  and the entry of the segment is the \<open>alright\<close> template.
\<close>

theorem zero_gcd_is_evaluated:
  "(StructureStripContent segs sl mode tx = Inl TypeError \<longleftrightarrow> segs = [])
   \<and> (StructureStripContent_part0 segs sl mode tx lmin lmax = Inl TypeError \<longleftrightarrow> segs = [])
   \<and> (\<forall>this. StructureStripContent segs sl mode tx = Inr this \<longrightarrow>
          length (buildFeedbackTexts this textTemplates) = length segs
        \<and> (greatestCommonDivisor this = 0 \<longleftrightarrow> (\<exists>s. segs = [s] \<and> getWeight s = 0))
        \<and> (greatestCommonDivisor this = 0 \<longrightarrow>
              buildFeedbackTexts this textTemplates = [alright textTemplates]))
   \<and> (\<forall>this. StructureStripContent_part0 segs sl mode tx lmin lmax = Inr this \<longrightarrow>
          length (buildFeedbackTexts_part0 this textTemplates) = length segs
        \<and> (greatestCommonDivisor this = 0 \<longleftrightarrow> (\<exists>s. segs = [s] \<and> getWeight s = 0))
        \<and> (greatestCommonDivisor this = 0 \<longrightarrow>
              buildFeedbackTexts_part0 this textTemplates = [alright textTemplates]))"
proof (intro conjI allI impI)
  show "StructureStripContent segs sl mode tx = Inl TypeError \<longleftrightarrow> segs = []"
    "StructureStripContent_part0 segs sl mode tx lmin lmax = Inl TypeError \<longleftrightarrow> segs = []"
    using constructors_fail_iff_empty [of segs sl mode tx lmin lmax] by blast+
next
  fix this
  assume c: "StructureStripContent segs sl mode tx = Inr this"
  note f = StructureStripContent_fields [OF c]
  from f show "length (buildFeedbackTexts this textTemplates) = length segs"
    by (simp add: buildFeedbackTexts_def)
  show "greatestCommonDivisor this = 0 \<longleftrightarrow> (\<exists>s. segs = [s] \<and> getWeight s = 0)"
  proof
    assume "greatestCommonDivisor this = 0"
    from zero_gcd_content [OF c this] show "\<exists>s. segs = [s] \<and> getWeight s = 0" by blast
  next
    assume "\<exists>s. segs = [s] \<and> getWeight s = 0"
    then have "map getWeight segs = [0]" by auto
    with f gcdArray_zero_iff [of "map getWeight segs"] show "greatestCommonDivisor this = 0"
      by simp
  qed
  assume g: "greatestCommonDivisor this = 0"
  from zero_gcd_content [OF c g] f
  show "buildFeedbackTexts this textTemplates = [alright textTemplates]"
    by (auto simp: buildFeedbackTexts_verdicts)
next
  fix this
  assume c: "StructureStripContent_part0 segs sl mode tx lmin lmax = Inr this"
  note f = StructureStripContent_part0_fields [OF c]
  from f show "length (buildFeedbackTexts_part0 this textTemplates) = length segs"
    by (simp add: buildFeedbackTexts_part0_def)
  show "greatestCommonDivisor this = 0 \<longleftrightarrow> (\<exists>s. segs = [s] \<and> getWeight s = 0)"
  proof
    assume "greatestCommonDivisor this = 0"
    from zero_gcd_part0 [OF c this] show "\<exists>s. segs = [s] \<and> getWeight s = 0" by blast
  next
    assume "\<exists>s. segs = [s] \<and> getWeight s = 0"
    then have "map getWeight segs = [0]" by auto
    with f gcdArray_zero_iff [of "map getWeight segs"] show "greatestCommonDivisor this = 0"
      by simp
  qed
  assume g: "greatestCommonDivisor this = 0"
  from zero_gcd_part0 [OF c g] f
  show "buildFeedbackTexts_part0 this textTemplates = [alright textTemplates]"
    by (auto simp: buildFeedbackTexts_verdicts)
qed

theorem zero_gcd_is_evaluated_witness:
  "\<exists>this this0.
      StructureStripContent [\<lparr>getTitle = ''Only'', getWeight = 0, getText = ''Hi''\<rparr>]
        10 ''onRequest'' \<lparr>l10n_tooLong = ''too long'', l10n_tooShort = ''too short'',
           l10n_segmentTooLong = ''@title: remove @chars'',
           l10n_segmentTooShort = ''@title: add @chars'',
           l10n_allSegmentsGood = ''good''\<rparr> = Inr this
    \<and> StructureStripContent_part0 [\<lparr>getTitle = ''Only'', getWeight = 0, getText = ''Hi''\<rparr>]
        10 ''onRequest'' \<lparr>l10n_tooLong = ''too long'', l10n_tooShort = ''too short'',
           l10n_segmentTooLong = ''@title: remove @chars'',
           l10n_segmentTooShort = ''@title: add @chars'',
           l10n_allSegmentsGood = ''good''\<rparr> (Some 10) (Some 100) = Inr this0
    \<and> greatestCommonDivisor this = 0 \<and> greatestCommonDivisor this0 = 0
    \<and> buildFeedbackTexts this
         \<lparr>alright = Some ''fine'', tooLong = ''remove @chars'', tooShort = ''add @chars''\<rparr>
        = [Some ''fine'']
    \<and> buildFeedbackTexts_part0 this0
         \<lparr>alright = Some ''fine'', tooLong = ''remove @chars'', tooShort = ''add @chars''\<rparr>
        = [Some ''fine'']"
proof -
  let ?segs = "[\<lparr>getTitle = ''Only'', getWeight = 0, getText = ''Hi''\<rparr>]"
  let ?tpl = "\<lparr>alright = Some ''fine'', tooLong = ''remove @chars'', tooShort = ''add @chars''\<rparr>"
  let ?l = "\<lparr>l10n_tooLong = ''too long'', l10n_tooShort = ''too short'',
           l10n_segmentTooLong = ''@title: remove @chars'',
           l10n_segmentTooShort = ''@title: add @chars'',
           l10n_allSegmentsGood = ''good''\<rparr>"
  note t = zero_gcd_is_evaluated [of ?segs 10 "''onRequest''" ?l "Some 10" "Some 100" ?tpl]
  have ne: "?segs \<noteq> []" by simp
  from StructureStripContent_succeeds [OF ne]
  obtain a where a: "StructureStripContent ?segs 10 ''onRequest'' ?l = Inr a" by blast
  from StructureStripContent_part0_succeeds [OF ne]
  obtain b where b: "StructureStripContent_part0 ?segs 10 ''onRequest'' ?l (Some 10) (Some 100) = Inr b"
    by blast
  have s: "\<exists>s. ?segs = [s] \<and> getWeight s = 0" by simp
  from t a s have ga: "greatestCommonDivisor a = 0" by blast
  from t b s have gb: "greatestCommonDivisor b = 0" by blast
  from t a ga have "buildFeedbackTexts a ?tpl = [alright ?tpl]" by blast
  moreover from t b gb have "buildFeedbackTexts_part0 b ?tpl = [alright ?tpl]" by blast
  ultimately show ?thesis using a b ga gb by auto
qed

theorem zero_gcd_raises_no_error:
  "\<exists>this. StructureStripContent [\<lparr>getTitle = ''Only'', getWeight = 0, getText = []\<rparr>]
        10 ''onRequest'' \<lparr>l10n_tooLong = ''too long'', l10n_tooShort = ''too short'',
           l10n_segmentTooLong = ''@title: remove @chars'',
           l10n_segmentTooShort = ''@title: add @chars'',
           l10n_allSegmentsGood = ''good''\<rparr> = Inr this
    \<and> greatestCommonDivisor this = 0
    \<and> buildFeedbackTexts this
         \<lparr>alright = None, tooLong = ''@title: remove @chars'', tooShort = ''@title: add @chars''\<rparr>
        = [None]
    \<and> checkAnswer this = Some ''<p>good</p>''"
proof -
  let ?segs = "[\<lparr>getTitle = ''Only'', getWeight = 0, getText = []\<rparr>]"
  let ?l = "\<lparr>l10n_tooLong = ''too long'', l10n_tooShort = ''too short'',
           l10n_segmentTooLong = ''@title: remove @chars'',
           l10n_segmentTooShort = ''@title: add @chars'',
           l10n_allSegmentsGood = ''good''\<rparr>"
  have "?segs \<noteq> []" by simp
  from StructureStripContent_succeeds [OF this]
  obtain a where a: "StructureStripContent ?segs 10 ''onRequest'' ?l = Inr a" by blast
  have "case StructureStripContent ?segs 10 ''onRequest'' ?l of
          Inl e \<Rightarrow> False
        | Inr this \<Rightarrow> greatestCommonDivisor this = 0
            \<and> buildFeedbackTexts this
                 \<lparr>alright = None, tooLong = ''@title: remove @chars'',
                  tooShort = ''@title: add @chars''\<rparr> = [None]
            \<and> checkAnswer this = Some ''<p>good</p>''"
    by code_simp
  with a show ?thesis by simp
qed

section \<open>The scenario of two segments\<close>

text \<open>
  C3, as the code has it. For the segments Intro (weight 1, text \<open>Hi\<close>) and Body (weight 3,
  empty text) with slack 10, Body is the reference segment, the reference length is 3 and
  the normalized reference length is 1; Intro has the normalized length 2, above the upper
  end 11/10 of the band, and its excess is 9/10 of a character. part\_000, with no length
  bounds configured, rounds the excess to the nearest integer and reports Intro as too
  long by 1 character. h5p-structure-strip-content.js rounds it down to 0 and pushes
  \<open>null\<close> for Intro.
\<close>

theorem scenario_intro_body:
  "(\<exists>this. StructureStripContent_part0
        [\<lparr>getTitle = ''Intro'', getWeight = 1, getText = ''Hi''\<rparr>,
         \<lparr>getTitle = ''Body'', getWeight = 3, getText = []\<rparr>]
        10 ''continuously'' \<lparr>l10n_tooLong = ''too long'', l10n_tooShort = ''too short'',
           l10n_segmentTooLong = ''@title: remove @chars'',
           l10n_segmentTooShort = ''@title: add @chars'',
           l10n_allSegmentsGood = ''good''\<rparr> None None = Inr this
      \<and> mostImportantSegment this = 1
      \<and> greatestCommonDivisor this = 1
      \<and> clampedReference_part0 this = (Fin 3, Fin (1 / 10))
      \<and> normalizedReferenceLength_part0 this = Fin 1
      \<and> normalizedLengthMax_part0 this = Fin (11 / 10)
      \<and> normalizedLength \<lparr>getTitle = ''Intro'', getWeight = 1, getText = ''Hi''\<rparr> = Fin 2
      \<and> verdicts_part0 this = [TooLong (Fin 1), TooShort (Fin 3)]
      \<and> buildFeedbackTexts_part0 this
           \<lparr>alright = None, tooLong = ''@title: remove @chars (@title)'',
            tooShort = ''@title: add @chars''\<rparr>
          = [Some ''Intro: remove 1 (Intro)'', Some ''Body: add 3''])
   \<and> (\<exists>this. StructureStripContent
        [\<lparr>getTitle = ''Intro'', getWeight = 1, getText = ''Hi''\<rparr>,
         \<lparr>getTitle = ''Body'', getWeight = 3, getText = []\<rparr>]
        10 ''continuously'' \<lparr>l10n_tooLong = ''too long'', l10n_tooShort = ''too short'',
           l10n_segmentTooLong = ''@title: remove @chars'',
           l10n_segmentTooShort = ''@title: add @chars'',
           l10n_allSegmentsGood = ''good''\<rparr> = Inr this
      \<and> mostImportantSegment this = 1
      \<and> greatestCommonDivisor this = 1
      \<and> referenceLength this = Fin 3
      \<and> normalizedReferenceLength this = Fin 1
      \<and> normalizedLengthMax this = Fin (11 / 10)
      \<and> (normalizedLength \<lparr>getTitle = ''Intro'', getWeight = 1, getText = ''Hi''\<rparr>
            - normalizedLengthMax this) * num 1 = Fin (9 / 10)
      \<and> verdicts this = [Suppressed, TooShort (Fin 3)]
      \<and> buildFeedbackTexts this
           \<lparr>alright = None, tooLong = ''@title: remove @chars (@title)'',
            tooShort = ''@title: add @chars''\<rparr>
          = [None, Some ''Body: add 3''])"
proof -
  let ?segs = "[\<lparr>getTitle = ''Intro'', getWeight = 1, getText = ''Hi''\<rparr>,
         \<lparr>getTitle = ''Body'', getWeight = 3, getText = []\<rparr>]"
  let ?l = "\<lparr>l10n_tooLong = ''too long'', l10n_tooShort = ''too short'',
           l10n_segmentTooLong = ''@title: remove @chars'',
           l10n_segmentTooShort = ''@title: add @chars'',
           l10n_allSegmentsGood = ''good''\<rparr>"
  let ?tpl = "\<lparr>alright = None, tooLong = ''@title: remove @chars (@title)'',
            tooShort = ''@title: add @chars''\<rparr>"
  have ne: "?segs \<noteq> []" by simp
  from StructureStripContent_succeeds [OF ne]
  obtain a where a: "StructureStripContent ?segs 10 ''continuously'' ?l = Inr a" by blast
  from StructureStripContent_part0_succeeds [OF ne]
  obtain b where b: "StructureStripContent_part0 ?segs 10 ''continuously'' ?l None None = Inr b"
    by blast
  have "case StructureStripContent_part0 ?segs 10 ''continuously'' ?l None None of
          Inl e \<Rightarrow> False
        | Inr this \<Rightarrow> mostImportantSegment this = 1
            \<and> greatestCommonDivisor this = 1
            \<and> clampedReference_part0 this = (Fin 3, Fin (1 / 10))
            \<and> normalizedReferenceLength_part0 this = Fin 1
            \<and> normalizedLengthMax_part0 this = Fin (11 / 10)
            \<and> normalizedLength \<lparr>getTitle = ''Intro'', getWeight = 1, getText = ''Hi''\<rparr> = Fin 2
            \<and> verdicts_part0 this = [TooLong (Fin 1), TooShort (Fin 3)]
            \<and> buildFeedbackTexts_part0 this ?tpl
                = [Some ''Intro: remove 1 (Intro)'', Some ''Body: add 3'']"
    by code_simp
  from b this [unfolded b sum.case] have 1: "\<exists>this. StructureStripContent_part0 ?segs 10 ''continuously'' ?l None None = Inr this
      \<and> mostImportantSegment this = 1
      \<and> greatestCommonDivisor this = 1
      \<and> clampedReference_part0 this = (Fin 3, Fin (1 / 10))
      \<and> normalizedReferenceLength_part0 this = Fin 1
      \<and> normalizedLengthMax_part0 this = Fin (11 / 10)
      \<and> normalizedLength \<lparr>getTitle = ''Intro'', getWeight = 1, getText = ''Hi''\<rparr> = Fin 2
      \<and> verdicts_part0 this = [TooLong (Fin 1), TooShort (Fin 3)]
      \<and> buildFeedbackTexts_part0 this ?tpl
          = [Some ''Intro: remove 1 (Intro)'', Some ''Body: add 3'']"
    by (intro exI [of _ b] conjI) (elim conjE; assumption)+
  have "case StructureStripContent ?segs 10 ''continuously'' ?l of
          Inl e \<Rightarrow> False
        | Inr this \<Rightarrow> mostImportantSegment this = 1
            \<and> greatestCommonDivisor this = 1
            \<and> referenceLength this = Fin 3
            \<and> normalizedReferenceLength this = Fin 1
            \<and> normalizedLengthMax this = Fin (11 / 10)
            \<and> (normalizedLength \<lparr>getTitle = ''Intro'', getWeight = 1, getText = ''Hi''\<rparr>
                  - normalizedLengthMax this) * num 1 = Fin (9 / 10)
            \<and> verdicts this = [Suppressed, TooShort (Fin 3)]
            \<and> buildFeedbackTexts this ?tpl = [None, Some ''Body: add 3'']"
    by code_simp
  from a this [unfolded a sum.case] have 2: "\<exists>this. StructureStripContent ?segs 10 ''continuously'' ?l = Inr this
      \<and> mostImportantSegment this = 1
      \<and> greatestCommonDivisor this = 1
      \<and> referenceLength this = Fin 3
      \<and> normalizedReferenceLength this = Fin 1
      \<and> normalizedLengthMax this = Fin (11 / 10)
      \<and> (normalizedLength \<lparr>getTitle = ''Intro'', getWeight = 1, getText = ''Hi''\<rparr>
            - normalizedLengthMax this) * num 1 = Fin (9 / 10)
      \<and> verdicts this = [Suppressed, TooShort (Fin 3)]
      \<and> buildFeedbackTexts this ?tpl = [None, Some ''Body: add 3'']"
    by (intro exI [of _ a] conjI) (elim conjE; assumption)+
  from 1 2 show ?thesis by (rule conjI)
qed

theorem scenario_intro_floors_to_zero:
  "\<exists>this. StructureStripContent
        [\<lparr>getTitle = ''Intro'', getWeight = 1, getText = ''Hi''\<rparr>,
         \<lparr>getTitle = ''Body'', getWeight = 3, getText = []\<rparr>]
        10 ''onRequest'' \<lparr>l10n_tooLong = ''too long'', l10n_tooShort = ''too short'',
           l10n_segmentTooLong = ''@title: remove @chars'',
           l10n_segmentTooShort = ''@title: add @chars'',
           l10n_allSegmentsGood = ''good''\<rparr> = Inr this
    \<and> verdicts this ! 0 = Suppressed
    \<and> verdicts this ! 0 \<noteq> TooLong (Fin 1)
    \<and> checkAnswer this = Some ''<p>Body: add 3</p>''
    \<and> updateSegments (this\<lparr>feedbackMode := ''continuously''\<rparr>)
        = Some [''&nbsp;'', ''too short'']"
proof -
  let ?segs = "[\<lparr>getTitle = ''Intro'', getWeight = 1, getText = ''Hi''\<rparr>,
         \<lparr>getTitle = ''Body'', getWeight = 3, getText = []\<rparr>]"
  let ?l = "\<lparr>l10n_tooLong = ''too long'', l10n_tooShort = ''too short'',
           l10n_segmentTooLong = ''@title: remove @chars'',
           l10n_segmentTooShort = ''@title: add @chars'',
           l10n_allSegmentsGood = ''good''\<rparr>"
  have "?segs \<noteq> []" by simp
  from StructureStripContent_succeeds [OF this]
  obtain a where a: "StructureStripContent ?segs 10 ''onRequest'' ?l = Inr a" by blast
  have "case StructureStripContent ?segs 10 ''onRequest'' ?l of
          Inl e \<Rightarrow> False
        | Inr this \<Rightarrow> verdicts this ! 0 = Suppressed
            \<and> verdicts this ! 0 \<noteq> TooLong (Fin 1)
            \<and> checkAnswer this = Some ''<p>Body: add 3</p>''
            \<and> updateSegments (this\<lparr>feedbackMode := ''continuously''\<rparr>)
                = Some [''&nbsp;'', ''too short'']"
    by code_simp
  from a this [unfolded a sum.case] show ?thesis
    by (intro exI [of _ a] conjI) (elim conjE; assumption)+
qed

section \<open>Rounding of the gaps\<close>






section \<open>The band against the specification\<close>





section \<open>Growing texts\<close>


lemma clamp_state:
  assumes r: "0 < r" and p: "0 < p" "p \<le> 1"
    and raw: "rawReferenceLength_part0 this = Fin r"
    and pct: "mostImportantSegmentPercentage this = Fin p"
    and lo: "textLengthMin this = paramNumber lmin"
    and hi: "textLengthMax this =
         (if paramNumber lmax * Fin p < paramNumber lmin then PInf else paramNumber lmax)"
  shows "\<exists>x y. clampedReference_part0 this = (Fin x, Fin y) \<and>
       ((\<exists>a. lmin = Some a \<and> r < a * p \<and> x = a * p \<and> y = 0)
       \<or> (\<exists>b. lmax = Some b \<and> b * p < r
              \<and> (\<forall>a. lmin = Some a \<longrightarrow> a * p \<le> r \<and> a \<le> b * p) \<and> x = b * p \<and> y = 0)
       \<or> ((\<forall>a. lmin = Some a \<longrightarrow> a * p \<le> r)
              \<and> (\<forall>b. lmax = Some b \<longrightarrow> (\<forall>a. lmin = Some a \<longrightarrow> a \<le> b * p) \<longrightarrow> r \<le> b * p)
              \<and> x = r \<and> y = slack this / 100))"
proof -
  have ap: "a * p \<le> a" if "0 < a" for a :: rat
    using that p by (simp add: mult_left_le)
  note defs = clampedReference_part0_def raw pct lo hi Let_def
  show ?thesis
  proof (cases lmin)
    case None
    show ?thesis
    proof (cases lmax)
      case N2: None
      have "clampedReference_part0 this = (Fin r, Fin (slack this / 100))"
        using r p by (simp add: defs None N2)
      then show ?thesis
        by (intro exI [of _ r] exI [of _ "slack this / 100"]) (simp add: None N2)
    next
      case (Some b)
      show ?thesis
      proof (cases "b * p < r")
        case True
        then have "clampedReference_part0 this = (Fin (b * p), Fin 0)"
          using r p by (simp add: defs None Some)
        then show ?thesis
          using True by (intro exI [of _ "b * p"] exI [of _ 0]) (simp add: None Some)
      next
        case False
        then have "clampedReference_part0 this = (Fin r, Fin (slack this / 100))"
          using r p by (simp add: defs None Some)
        then show ?thesis
          using False by (intro exI [of _ r] exI [of _ "slack this / 100"]) (simp add: None Some)
      qed
    qed
  next
    case (Some a)
    show ?thesis
    proof (cases "r < a * p")
      case low: True
      with r have "0 < a * p" by simp
      with p have a0: "0 < a" by (simp add: zero_less_mult_iff)
      have "clampedReference_part0 this = (Fin (a * p), Fin 0)"
      proof (cases lmax)
        case None
        with low show ?thesis using r p by (simp add: defs Some)
      next
        case S2: (Some b)
        show ?thesis
        proof (cases "b * p < a")
          case True
          with low show ?thesis using r p by (simp add: defs Some S2)
        next
          case False
          with ap [OF a0] have "\<not> b * p < a * p" by simp
          with low False show ?thesis using r p by (simp add: defs Some S2)
        qed
      qed
      then show ?thesis
        using low by (intro exI [of _ "a * p"] exI [of _ 0]) (simp add: Some)
    next
      case nolow: False
      show ?thesis
      proof (cases lmax)
        case None
        have "clampedReference_part0 this = (Fin r, Fin (slack this / 100))"
          using nolow r p by (simp add: defs Some None)
        then show ?thesis
          using nolow
          by (intro exI [of _ r] exI [of _ "slack this / 100"]) (simp add: Some None)
      next
        case S2: (Some b)
        show ?thesis
        proof (cases "b * p < a")
          case True
          have "clampedReference_part0 this = (Fin r, Fin (slack this / 100))"
            using nolow True r p by (simp add: defs Some S2)
          then show ?thesis
            using nolow True
            by (intro exI [of _ r] exI [of _ "slack this / 100"]) (simp add: Some S2)
        next
          case False
          show ?thesis
          proof (cases "b * p < r")
            case high: True
            have "clampedReference_part0 this = (Fin (b * p), Fin 0)"
              using nolow False high r p by (simp add: defs Some S2)
            then show ?thesis
              using nolow False high
              by (intro exI [of _ "b * p"] exI [of _ 0]) (simp add: Some S2)
          next
            case nohigh: False
            have "clampedReference_part0 this = (Fin r, Fin (slack this / 100))"
              using nolow False nohigh r p by (simp add: defs Some S2)
            then show ?thesis
              using nolow False nohigh
              by (intro exI [of _ r] exI [of _ "slack this / 100"]) (simp add: Some S2)
          qed
        qed
      qed
    qed
  qed
qed


lemma part0_state:
  assumes c: "StructureStripContent_part0 segs sl mode tx lmin lmax = Inr this"
    and pos: "\<forall>s\<in>set segs. 0 < getWeight s"
  shows "\<exists>x y p r.
       p = of_int (getWeight (segs ! mostImportantSegment this))
             / of_int (sum_list (map getWeight segs))
     \<and> r = max (of_nat (length (getText (segs ! mostImportantSegment this))))
               (of_int (getWeight (segs ! mostImportantSegment this))
                  / of_int (greatestCommonDivisor this))
     \<and> normalizedLengthMax_part0 this
          = Fin (x / of_int (getWeight (segs ! mostImportantSegment this)) * (1 + y))
     \<and> normalizedLengthMin_part0 this
          = Fin (x / of_int (getWeight (segs ! mostImportantSegment this)) * (1 - y))
     \<and> ((\<exists>a. lmin = Some a \<and> r < a * p \<and> x = a * p \<and> y = 0)
       \<or> (\<exists>b. lmax = Some b \<and> b * p < r
              \<and> (\<forall>a. lmin = Some a \<longrightarrow> a * p \<le> r \<and> a \<le> b * p) \<and> x = b * p \<and> y = 0)
       \<or> ((\<forall>a. lmin = Some a \<longrightarrow> a * p \<le> r)
              \<and> (\<forall>b. lmax = Some b \<longrightarrow> (\<forall>a. lmin = Some a \<longrightarrow> a \<le> b * p) \<longrightarrow> r \<le> b * p)
              \<and> x = r \<and> y = sl / 100))"
proof -
  note q = part0_positive [OF c pos]
  define r :: rat where "r = max (of_nat (length (getText (segs ! mostImportantSegment this))))
               (of_int (getWeight (segs ! mostImportantSegment this))
                  / of_int (greatestCommonDivisor this))"
  from part0_bounds [OF c pos] obtain p where p: "0 < p" "p \<le> 1"
    "mostImportantSegmentPercentage this = Fin p"
    "p = of_int (getWeight (segs ! mostImportantSegment this))
              / of_int (sum_list (map getWeight segs))"
    "textLengthMin this = paramNumber lmin"
    "textLengthMax this =
         (if paramNumber lmax * Fin p < paramNumber lmin then PInf else paramNumber lmax)"
    by (elim exE conjE) (rule that)
  have r0: "0 < r" unfolding r_def by (rule part0_raw(2) [OF c pos])
  have raw: "rawReferenceLength_part0 this = Fin r"
    unfolding r_def by (rule part0_raw(1) [OF c pos])
  from clamp_state [OF r0 p(1,2) raw p(3,5,6)]
  obtain x y where cl: "clampedReference_part0 this = (Fin x, Fin y)"
    and st: "(\<exists>a. lmin = Some a \<and> r < a * p \<and> x = a * p \<and> y = 0)
       \<or> (\<exists>b. lmax = Some b \<and> b * p < r
              \<and> (\<forall>a. lmin = Some a \<longrightarrow> a * p \<le> r \<and> a \<le> b * p) \<and> x = b * p \<and> y = 0)
       \<or> ((\<forall>a. lmin = Some a \<longrightarrow> a * p \<le> r)
              \<and> (\<forall>b. lmax = Some b \<longrightarrow> (\<forall>a. lmin = Some a \<longrightarrow> a \<le> b * p) \<longrightarrow> r \<le> b * p)
              \<and> x = r \<and> y = slack this / 100)"
    by (elim exE conjE) (rule that)
  from q(4) have mx: "normalizedLengthMax_part0 this
          = Fin (x / of_int (getWeight (segs ! mostImportantSegment this)) * (1 + y))"
    and mn: "normalizedLengthMin_part0 this
          = Fin (x / of_int (getWeight (segs ! mostImportantSegment this)) * (1 - y))"
    by (simp_all add: normalizedLengthMax_part0_def normalizedLengthMin_part0_def
        normalizedReferenceLength_part0_def cl q(1) num_def Fin_minus)
  show ?thesis
    by (intro exI [of _ x] exI [of _ y] exI [of _ p] exI [of _ r] conjI)
       (rule p(4) r_def mx mn st [unfolded q(2)])+
qed
lemma rank_monotone:
  fixes L L' X X' N N' :: rat and rd :: "rat \<Rightarrow> int"
  assumes rd: "\<And>u v. u \<le> v \<Longrightarrow> rd u \<le> rd v" and rd0: "\<And>u. 0 \<le> u \<Longrightarrow> 0 \<le> rd u"
    and long: "X < L \<Longrightarrow> X' < L' \<and> L - X \<le> L' - X'"
    and short: "\<not> L < N \<Longrightarrow> X' < L' \<or> \<not> L' < N'"
  shows "(if X < L then (if rd (L - X) = 0 then 2 else 3) else if L < N then 0 else (1::nat))
       \<le> (if X' < L' then (if rd (L' - X') = 0 then 2 else 3) else if L' < N' then 0 else 1)"
proof (cases "X < L")
  case True
  with long have l: "X' < L'" "L - X \<le> L' - X'" by simp_all
  from True have "0 \<le> rd (L - X)" by (intro rd0) simp
  moreover from l(2) have "rd (L - X) \<le> rd (L' - X')" by (rule rd)
  ultimately have "rd (L - X) \<noteq> 0 \<Longrightarrow> rd (L' - X') \<noteq> 0" by linarith
  with True l(1) show ?thesis by auto
next
  case False
  show ?thesis
  proof (cases "L < N")
    case True
    with False show ?thesis by simp
  next
    case F2: False
    from short [OF this] False F2 show ?thesis by auto
  qed
qed

lemma other_segment_monotone:
  fixes L L' X N :: rat
  assumes "L \<le> L'"
  shows "(X < L \<longrightarrow> X < L' \<and> L - X \<le> L' - X) \<and> (\<not> L < N \<longrightarrow> X < L' \<or> \<not> L' < N)"
  using assms by auto

lemma reference_monotone:
  fixes L L' q s :: rat
  assumes le: "L \<le> L'" and L: "0 \<le> L" and q: "0 < q" and s: "0 \<le> s"
  shows "(max L q * (1 + s) < L \<longrightarrow>
            max L' q * (1 + s) < L' \<and> L - max L q * (1 + s) \<le> L' - max L' q * (1 + s))
       \<and> (\<not> L < max L q * (1 - s) \<longrightarrow>
            max L' q * (1 + s) < L' \<or> \<not> L' < max L' q * (1 - s))"
proof -
  have up: "z \<le> z * (1 + s)" and dn: "z * (1 - s) \<le> z" if "0 \<le> z" for z
    using that s by (simp_all add: algebra_simps mult_nonneg_nonneg)
  from L q have "0 \<le> max L q" "L \<le> max L q" by simp_all
  with up [of "max L q"] have 1: "\<not> max L q * (1 + s) < L" by linarith
  have 2: "\<not> L' < max L' q * (1 - s)" if "\<not> L < max L q * (1 - s)"
  proof (cases "q \<le> L'")
    case True
    then have "max L' q = L'" by simp
    with dn [of L'] L le show ?thesis by simp
  next
    case False
    with le have "max L' q = q" "max L q = q" by simp_all
    with that le show ?thesis by simp
  qed
  from 1 2 show ?thesis by blast
qed

lemma clamped_reference_monotone:
  fixes L L' q s p x y x' y' :: rat and lmin lmax :: "rat option"
  assumes le: "L \<le> L'" and L: "0 \<le> L" and q: "0 < q" and s: "0 \<le> s"
    and st: "(\<exists>a. lmin = Some a \<and> max L q < a * p \<and> x = a * p \<and> y = 0)
       \<or> (\<exists>b. lmax = Some b \<and> b * p < max L q
              \<and> (\<forall>a. lmin = Some a \<longrightarrow> a * p \<le> max L q \<and> a \<le> b * p) \<and> x = b * p \<and> y = 0)
       \<or> ((\<forall>a. lmin = Some a \<longrightarrow> a * p \<le> max L q)
              \<and> (\<forall>b. lmax = Some b \<longrightarrow> (\<forall>a. lmin = Some a \<longrightarrow> a \<le> b * p) \<longrightarrow> max L q \<le> b * p)
              \<and> x = max L q \<and> y = s)"
    and st': "(\<exists>a. lmin = Some a \<and> max L' q < a * p \<and> x' = a * p \<and> y' = 0)
       \<or> (\<exists>b. lmax = Some b \<and> b * p < max L' q
              \<and> (\<forall>a. lmin = Some a \<longrightarrow> a * p \<le> max L' q \<and> a \<le> b * p) \<and> x' = b * p \<and> y' = 0)
       \<or> ((\<forall>a. lmin = Some a \<longrightarrow> a * p \<le> max L' q)
              \<and> (\<forall>b. lmax = Some b \<longrightarrow> (\<forall>a. lmin = Some a \<longrightarrow> a \<le> b * p) \<longrightarrow> max L' q \<le> b * p)
              \<and> x' = max L' q \<and> y' = s)"
  shows "(x * (1 + y) < L \<longrightarrow> x' * (1 + y') < L' \<and> L - x * (1 + y) \<le> L' - x' * (1 + y'))
       \<and> (\<not> L < x * (1 - y) \<longrightarrow> x' * (1 + y') < L' \<or> \<not> L' < x' * (1 - y'))"
proof -
  have rr: "max L q \<le> max L' q" using le by (simp add: max.mono)
  have Lr: "L \<le> max L q" by simp
  from st consider
      (low) a where "lmin = Some a" "max L q < a * p" "x = a * p" "y = 0"
    | (high) b where "lmax = Some b" "b * p < max L q"
        "\<forall>a. lmin = Some a \<longrightarrow> a * p \<le> max L q \<and> a \<le> b * p" "x = b * p" "y = 0"
    | (none) "\<forall>a. lmin = Some a \<longrightarrow> a * p \<le> max L q"
        "\<forall>b. lmax = Some b \<longrightarrow> (\<forall>a. lmin = Some a \<longrightarrow> a \<le> b * p) \<longrightarrow> max L q \<le> b * p"
        "x = max L q" "y = s"
    by blast
  then show ?thesis
  proof cases
    case low
    with Lr have "L < x" by simp
    with low(4) show ?thesis by simp
  next
    case high
    from st' consider
        (low') a where "lmin = Some a" "max L' q < a * p"
      | (high') b' where "lmax = Some b'" "x' = b' * p" "y' = 0"
      | (none') "\<forall>b. lmax = Some b \<longrightarrow> (\<forall>a. lmin = Some a \<longrightarrow> a \<le> b * p) \<longrightarrow> max L' q \<le> b * p"
      by blast
    then show ?thesis
    proof cases
      case low'
      with high(3) have "a * p \<le> max L q" by simp
      with low'(2) rr have False by linarith
      then show ?thesis ..
    next
      case high'
      with high(1) have "x' = b * p" by simp
      with high(4,5) high'(3) le show ?thesis by simp
    next
      case none'
      with high(1,3) have "max L' q \<le> b * p" by simp
      with high(2) rr have False by linarith
      then show ?thesis ..
    qed
  next
    case none
    have up: "z \<le> z * (1 + s)" and dn: "z * (1 - s) \<le> z" if "0 \<le> z" for z
      using that s by (simp_all add: algebra_simps mult_nonneg_nonneg)
    from L have r0: "0 \<le> max L q" by simp
    from up [OF r0] Lr none(3,4) have nolong: "\<not> x * (1 + y) < L" by simp
    have "x' * (1 + y') < L' \<or> \<not> L' < x' * (1 - y')" if keep: "\<not> L < x * (1 - y)"
    proof -
      from st' consider
          (low') a where "lmin = Some a" "max L' q < a * p"
        | (high') b where "lmax = Some b" "b * p < max L' q"
            "\<forall>a. lmin = Some a \<longrightarrow> a \<le> b * p" "x' = b * p" "y' = 0"
        | (none') "x' = max L' q" "y' = s"
        by blast
      then show ?thesis
      proof cases
        case low'
        with none(1) have "a * p \<le> max L q" by simp
        with low'(2) rr have False by linarith
      then show ?thesis ..
      next
        case high'
        with none(2) have "max L q \<le> b * p" by simp
        then have "q \<le> b * p" by simp
        with high'(2) have "b * p < L'" by (simp add: less_max_iff_disj)
        with high'(4,5) show ?thesis by simp
      next
        case none'
        show ?thesis
        proof (cases "q \<le> L'")
          case True
          then have "max L' q = L'" by simp
          with dn [of L'] L le none' show ?thesis by simp
        next
          case False
          with le have "max L' q = q" "max L q = q" by simp_all
          with keep le none(3,4) none' show ?thesis by simp
        qed
      qed
    qed
    with nolong show ?thesis by blast
  qed
qed


lemma setText_props:
  assumes "i < length segs"
  shows "length (setText i t segs) = length segs"
    and "map getWeight (setText i t segs) = map getWeight segs"
    and "setText i t segs ! i = (segs ! i)\<lparr>getText := t\<rparr>"
    and "j \<noteq> i \<Longrightarrow> setText i t segs ! j = segs ! j"
    and "\<forall>s\<in>set segs. 0 < getWeight s \<Longrightarrow> \<forall>s\<in>set (setText i t segs). 0 < getWeight s"
proof -
  show len: "length (setText i t segs) = length segs" by (simp add: setText_def)
  show w: "map getWeight (setText i t segs) = map getWeight segs"
  proof (rule nth_equalityI)
    show "length (map getWeight (setText i t segs)) = length (map getWeight segs)"
      by (simp add: len)
    fix j
    assume "j < length (map getWeight (setText i t segs))"
    then have j: "j < length segs" by (simp add: len)
    then show "map getWeight (setText i t segs) ! j = map getWeight segs ! j"
      by (cases "j = i") (simp_all add: setText_def)
  qed
  from assms show "setText i t segs ! i = (segs ! i)\<lparr>getText := t\<rparr>"
    by (simp add: setText_def)
  show "j \<noteq> i \<Longrightarrow> setText i t segs ! j = segs ! j" by (simp add: setText_def)
  assume "\<forall>s\<in>set segs. 0 < getWeight s"
  then have "\<forall>v\<in>set (map getWeight segs). 0 < v" by simp
  then have "\<forall>v\<in>set (map getWeight (setText i t segs)). 0 < v" by (simp only: w)
  then show "\<forall>s\<in>set (setText i t segs). 0 < getWeight s" by simp
qed

lemma determineReference_weights:
  assumes w: "map getWeight segs = map getWeight segs'"
  shows "determineReference segs = determineReference segs'"
proof (cases "segs = []")
  case True
  with w have "segs' = []" by simp
  with True show ?thesis by simp
next
  case False
  with w have ne: "segs' \<noteq> []" by auto
  from w have len: "length segs = length segs'" by (rule map_eq_imp_length_eq)
  have W: "getWeight (segs ! j) = getWeight (segs' ! j)" if "j < length segs" for j
  proof -
    from that have "getWeight (segs ! j) = map getWeight segs ! j" by simp
    also from that len have "\<dots> = getWeight (segs' ! j)" by (simp add: w)
    finally show ?thesis .
  qed
  from determineReference_first_max [OF False]
  obtain m where m: "determineReference segs = Inr m" "m < length segs"
    "\<forall>j<length segs. getWeight (segs ! j) \<le> getWeight (segs ! m)"
    "\<forall>j<m. getWeight (segs ! j) < getWeight (segs ! m)" by blast
  from determineReference_first_max [OF ne]
  obtain m' where m': "determineReference segs' = Inr m'" "m' < length segs'"
    "\<forall>j<length segs'. getWeight (segs' ! j) \<le> getWeight (segs' ! m')"
    "\<forall>j<m'. getWeight (segs' ! j) < getWeight (segs' ! m')" by blast
  have "m = m'"
  proof (rule ccontr)
    assume "m \<noteq> m'"
    then consider "m < m'" | "m' < m" by linarith
    then show False
    proof cases
      case 1
      with m'(4) have "getWeight (segs' ! m) < getWeight (segs' ! m')" by simp
      moreover from m(3) m'(2) len have "getWeight (segs ! m') \<le> getWeight (segs ! m)" by simp
      ultimately show False using W [of m] W [of m'] m(2) m'(2) len by simp
    next
      case 2
      with m(4) have "getWeight (segs ! m') < getWeight (segs ! m)" by simp
      moreover from m'(3) m(2) len have "getWeight (segs' ! m) \<le> getWeight (segs' ! m')" by simp
      ultimately show False using W [of m] W [of m'] m(2) m'(2) len by simp
    qed
  qed
  with m(1) m'(1) show ?thesis by simp
qed

lemma rank_segmentVerdict:
  assumes w: "0 < getWeight segment"
  shows "verdictRank (segmentVerdict (Fin mx) (Fin mn) segment) =
     (if mx * of_int (getWeight segment) < of_nat (length (getText segment))
      then (if \<lfloor>of_nat (length (getText segment)) - mx * of_int (getWeight segment)\<rfloor> = 0
            then 2 else 3)
      else if of_nat (length (getText segment)) < mn * of_int (getWeight segment) then 0 else 1)"
proof -
  let ?w = "of_int (getWeight segment) :: rat"
  let ?L = "of_nat (length (getText segment)) :: rat"
  from w have wp: "0 < ?w" by simp
  then have 1: "(?L / ?w - mx) * ?w = ?L - mx * ?w" by (simp add: field_simps)
  from wp have 2: "mx < ?L / ?w \<longleftrightarrow> mx * ?w < ?L" by (simp add: pos_less_divide_eq)
  from wp have 3: "?L / ?w < mn \<longleftrightarrow> ?L < mn * ?w" by (simp add: pos_divide_less_eq)
  show ?thesis
    unfolding segmentVerdict_Fin [OF w] Let_def 1 2 3 by simp
qed

lemma rank_segmentVerdict_part0:
  assumes w: "0 < getWeight segment"
  shows "verdictRank (segmentVerdict_part0 (Fin mx) (Fin mn) segment) =
     (if mx * of_int (getWeight segment) < of_nat (length (getText segment))
      then (if \<lfloor>of_nat (length (getText segment)) - mx * of_int (getWeight segment) + 1 / 2\<rfloor> = 0
            then 2 else 3)
      else if of_nat (length (getText segment)) < mn * of_int (getWeight segment) then 0 else 1)"
proof -
  let ?w = "of_int (getWeight segment) :: rat"
  let ?L = "of_nat (length (getText segment)) :: rat"
  from w have wp: "0 < ?w" by simp
  then have 1: "(?L / ?w - mx) * ?w = ?L - mx * ?w" by (simp add: field_simps)
  from wp have 2: "mx < ?L / ?w \<longleftrightarrow> mx * ?w < ?L" by (simp add: pos_less_divide_eq)
  from wp have 3: "?L / ?w < mn \<longleftrightarrow> ?L < mn * ?w" by (simp add: pos_divide_less_eq)
  show ?thesis
    unfolding segmentVerdict_part0_Fin [OF w] Let_def 1 2 3 by simp
qed

lemma content_growing:
  assumes a: "StructureStripContent segs sl mode tx = Inr this"
    and a': "StructureStripContent (setText i t segs) sl mode tx = Inr this'"
    and pos: "\<forall>s\<in>set segs. 0 < getWeight s"
    and slack: "0 \<le> sl"
    and i: "i < length segs"
    and longer: "length (getText (segs ! i)) \<le> length t"
  shows "verdictRank (verdicts this ! i) \<le> verdictRank (verdicts this' ! i)"
proof -
  note sp = setText_props [OF i, where t = t]
  note pos' = sp(5) [OF pos]
  note pa = content_positive [OF a pos] and pa' = content_positive [OF a' pos']
  note fa = StructureStripContent_fields [OF a] and fa' = StructureStripContent_fields [OF a']
  define m where "m = mostImportantSegment this"
  from fa fa' determineReference_weights [OF sp(2)]
  have m': "mostImportantSegment this' = m" by (simp add: m_def)
  from fa fa' sp(2) have g': "greatestCommonDivisor this' = greatestCommonDivisor this" by simp
  have wm': "getWeight (setText i t segs ! m) = getWeight (segs ! m)"
    using sp(3) sp(4) [of m] by (cases "m = i") simp_all
  define w :: rat where "w = of_int (getWeight (segs ! m))"
  define q :: rat where "q = w / of_int (greatestCommonDivisor this)"
  define s :: rat where "s = sl / 100"
  define Lm :: rat where "Lm = of_nat (length (getText (segs ! m)))"
  define Lm' :: rat where "Lm' = of_nat (length (getText (setText i t segs ! m)))"
  define wi :: rat where "wi = of_int (getWeight (segs ! i))"
  define L :: rat where "L = of_nat (length (getText (segs ! i)))"
  define L' :: rat where "L' = of_nat (length t)"
  from pa(4) have w0: "0 < w" by (simp add: w_def m_def)
  from pa(5) w0 have q0: "0 < q" by (simp add: q_def)
  from slack have s0: "0 \<le> s" by (simp add: s_def)
  from pos i have wi0: "0 < getWeight (segs ! i)" by simp
  from longer have LL: "L \<le> L'" by (simp add: L_def L'_def)
  have L0: "0 \<le> L" by (simp add: L_def)
  have band: "normalizedLengthMax this = Fin (max Lm q / w * (1 + s))"
    "normalizedLengthMin this = Fin (max Lm q / w * (1 - s))"
    using content_band [OF a pos]
    by (simp_all add: spec_band_def Let_def m_def [symmetric] w_def q_def s_def Lm_def)
  have band': "normalizedLengthMax this' = Fin (max Lm' q / w * (1 + s))"
    "normalizedLengthMin this' = Fin (max Lm' q / w * (1 - s))"
    using content_band [OF a' pos']
    by (simp_all add: spec_band_def Let_def m' g' wm' w_def q_def s_def Lm'_def)
  from i have v: "verdicts this ! i
      = segmentVerdict (Fin (max Lm q / w * (1 + s))) (Fin (max Lm q / w * (1 - s))) (segs ! i)"
    by (simp add: verdicts_def pa(1) band)
  from i have v': "verdicts this' ! i
      = segmentVerdict (Fin (max Lm' q / w * (1 + s))) (Fin (max Lm' q / w * (1 - s)))
          ((segs ! i)\<lparr>getText := t\<rparr>)"
    by (simp add: verdicts_def pa'(1) band' sp(1) sp(3))
  have wi0': "0 < getWeight ((segs ! i)\<lparr>getText := t\<rparr>)" using wi0 by simp
  have conds: "(max Lm q / w * (1 + s) * wi < L \<longrightarrow>
        max Lm' q / w * (1 + s) * wi < L'
        \<and> L - max Lm q / w * (1 + s) * wi \<le> L' - max Lm' q / w * (1 + s) * wi)
     \<and> (\<not> L < max Lm q / w * (1 - s) * wi \<longrightarrow>
        max Lm' q / w * (1 + s) * wi < L' \<or> \<not> L' < max Lm' q / w * (1 - s) * wi)"
  proof (cases "i = m")
    case True
    from True [symmetric] have e: "wi = w" "Lm = L" "Lm' = L'"
      by (simp_all add: wi_def w_def Lm_def L_def Lm'_def L'_def sp(3))
    from w0 have c: "z / w * u * w = z * u" for z u by simp
    show ?thesis
      unfolding e c by (rule reference_monotone [OF LL L0 q0 s0])
  next
    case False
    then have "m \<noteq> i" by simp
    then have "Lm' = Lm" by (simp add: Lm'_def Lm_def sp(4))
    then show ?thesis using other_segment_monotone [OF LL] by simp
  qed
  from conds have long: "max Lm q / w * (1 + s) * wi < L \<Longrightarrow>
        max Lm' q / w * (1 + s) * wi < L'
        \<and> L - max Lm q / w * (1 + s) * wi \<le> L' - max Lm' q / w * (1 + s) * wi"
    and short: "\<not> L < max Lm q / w * (1 - s) * wi \<Longrightarrow>
        max Lm' q / w * (1 + s) * wi < L' \<or> \<not> L' < max Lm' q / w * (1 - s) * wi"
    by blast+
  have fl: "u \<le> v \<Longrightarrow> \<lfloor>u\<rfloor> \<le> \<lfloor>v\<rfloor>" for u v :: rat by (rule floor_mono)
  have fl0: "0 \<le> u \<Longrightarrow> 0 \<le> \<lfloor>u\<rfloor>" for u :: rat by simp
  have r: "verdictRank (verdicts this ! i) =
      (if max Lm q / w * (1 + s) * wi < L
       then (if \<lfloor>L - max Lm q / w * (1 + s) * wi\<rfloor> = 0 then 2 else 3)
       else if L < max Lm q / w * (1 - s) * wi then 0 else 1)"
    by (simp add: v rank_segmentVerdict [OF wi0] L_def wi_def)
  have r': "verdictRank (verdicts this' ! i) =
      (if max Lm' q / w * (1 + s) * wi < L'
       then (if \<lfloor>L' - max Lm' q / w * (1 + s) * wi\<rfloor> = 0 then 2 else 3)
       else if L' < max Lm' q / w * (1 - s) * wi then 0 else 1)"
    by (simp add: v' rank_segmentVerdict [OF wi0'] L'_def wi_def)
  show ?thesis
    unfolding r r' by (rule rank_monotone [where rd = floor, OF fl fl0 long short])
qed

lemma clamp_state_unique:
  fixes r p x y x' y' s :: rat and lmin lmax :: "rat option"
  assumes st: "(\<exists>a. lmin = Some a \<and> r < a * p \<and> x = a * p \<and> y = 0)
       \<or> (\<exists>b. lmax = Some b \<and> b * p < r
              \<and> (\<forall>a. lmin = Some a \<longrightarrow> a * p \<le> r \<and> a \<le> b * p) \<and> x = b * p \<and> y = 0)
       \<or> ((\<forall>a. lmin = Some a \<longrightarrow> a * p \<le> r)
              \<and> (\<forall>b. lmax = Some b \<longrightarrow> (\<forall>a. lmin = Some a \<longrightarrow> a \<le> b * p) \<longrightarrow> r \<le> b * p)
              \<and> x = r \<and> y = s)"
    and st': "(\<exists>a. lmin = Some a \<and> r < a * p \<and> x' = a * p \<and> y' = 0)
       \<or> (\<exists>b. lmax = Some b \<and> b * p < r
              \<and> (\<forall>a. lmin = Some a \<longrightarrow> a * p \<le> r \<and> a \<le> b * p) \<and> x' = b * p \<and> y' = 0)
       \<or> ((\<forall>a. lmin = Some a \<longrightarrow> a * p \<le> r)
              \<and> (\<forall>b. lmax = Some b \<longrightarrow> (\<forall>a. lmin = Some a \<longrightarrow> a \<le> b * p) \<longrightarrow> r \<le> b * p)
              \<and> x' = r \<and> y' = s)"
  shows "x' = x \<and> y' = y"
  using st st' by (cases lmin; cases lmax) auto

lemma part0_growing:
  assumes b: "StructureStripContent_part0 segs sl mode tx lmin lmax = Inr this"
    and b': "StructureStripContent_part0 (setText i t segs) sl mode tx lmin lmax = Inr this'"
    and pos: "\<forall>s\<in>set segs. 0 < getWeight s"
    and slack: "0 \<le> sl"
    and i: "i < length segs"
    and longer: "length (getText (segs ! i)) \<le> length t"
  shows "verdictRank (verdicts_part0 this ! i) \<le> verdictRank (verdicts_part0 this' ! i)"
proof -
  note sp = setText_props [OF i, where t = t]
  note pos' = sp(5) [OF pos]
  note pa = part0_positive [OF b pos] and pa' = part0_positive [OF b' pos']
  note fa = StructureStripContent_part0_fields [OF b]
    and fa' = StructureStripContent_part0_fields [OF b']
  define m where "m = mostImportantSegment this"
  from fa fa' determineReference_weights [OF sp(2)]
  have m': "mostImportantSegment this' = m" by (simp add: m_def)
  from fa fa' sp(2) have g': "greatestCommonDivisor this' = greatestCommonDivisor this" by simp
  have wm': "getWeight (setText i t segs ! m) = getWeight (segs ! m)"
    using sp(3) sp(4) [of m] by (cases "m = i") simp_all
  define w :: rat where "w = of_int (getWeight (segs ! m))"
  define q :: rat where "q = w / of_int (greatestCommonDivisor this)"
  define p :: rat where "p = w / of_int (sum_list (map getWeight segs))"
  define s :: rat where "s = sl / 100"
  define Lm :: rat where "Lm = of_nat (length (getText (segs ! m)))"
  define Lm' :: rat where "Lm' = of_nat (length (getText (setText i t segs ! m)))"
  define wi :: rat where "wi = of_int (getWeight (segs ! i))"
  define L :: rat where "L = of_nat (length (getText (segs ! i)))"
  define L' :: rat where "L' = of_nat (length t)"
  from pa(4) have w0: "0 < w" by (simp add: w_def m_def)
  from pa(5) w0 have q0: "0 < q" by (simp add: q_def)
  from slack have s0: "0 \<le> s" by (simp add: s_def)
  from pos i have wi0: "0 < getWeight (segs ! i)" by simp
  from longer have LL: "L \<le> L'" by (simp add: L_def L'_def)
  have L0: "0 \<le> L" by (simp add: L_def)
  from part0_state [OF b pos, folded m_def, folded w_def, folded q_def p_def s_def Lm_def]
  obtain x y pp rr where e: "pp = p" "rr = max Lm q"
    and band: "normalizedLengthMax_part0 this = Fin (x / w * (1 + y))"
      "normalizedLengthMin_part0 this = Fin (x / w * (1 - y))"
    and st0: "(\<exists>a. lmin = Some a \<and> rr < a * pp \<and> x = a * pp \<and> y = 0)
       \<or> (\<exists>b. lmax = Some b \<and> b * pp < rr
              \<and> (\<forall>a. lmin = Some a \<longrightarrow> a * pp \<le> rr \<and> a \<le> b * pp) \<and> x = b * pp \<and> y = 0)
       \<or> ((\<forall>a. lmin = Some a \<longrightarrow> a * pp \<le> rr)
              \<and> (\<forall>b. lmax = Some b \<longrightarrow> (\<forall>a. lmin = Some a \<longrightarrow> a \<le> b * pp) \<longrightarrow> rr \<le> b * pp)
              \<and> x = rr \<and> y = s)"
    by (elim exE conjE) (rule that)
  note st = st0 [unfolded e]
  from part0_state [OF b' pos', unfolded m' wm' g' sp(2), folded w_def,
      folded q_def p_def s_def Lm'_def]
  obtain x' y' pp' rr' where e': "pp' = p" "rr' = max Lm' q"
    and band': "normalizedLengthMax_part0 this' = Fin (x' / w * (1 + y'))"
      "normalizedLengthMin_part0 this' = Fin (x' / w * (1 - y'))"
    and st0': "(\<exists>a. lmin = Some a \<and> rr' < a * pp' \<and> x' = a * pp' \<and> y' = 0)
       \<or> (\<exists>b. lmax = Some b \<and> b * pp' < rr'
              \<and> (\<forall>a. lmin = Some a \<longrightarrow> a * pp' \<le> rr' \<and> a \<le> b * pp') \<and> x' = b * pp' \<and> y' = 0)
       \<or> ((\<forall>a. lmin = Some a \<longrightarrow> a * pp' \<le> rr')
              \<and> (\<forall>b. lmax = Some b \<longrightarrow> (\<forall>a. lmin = Some a \<longrightarrow> a \<le> b * pp') \<longrightarrow> rr' \<le> b * pp')
              \<and> x' = rr' \<and> y' = s)"
    by (elim exE conjE) (rule that)
  note st' = st0' [unfolded e']
  from i have v: "verdicts_part0 this ! i
      = segmentVerdict_part0 (Fin (x / w * (1 + y))) (Fin (x / w * (1 - y))) (segs ! i)"
    by (simp add: verdicts_part0_def pa(1) band)
  from i have v': "verdicts_part0 this' ! i
      = segmentVerdict_part0 (Fin (x' / w * (1 + y'))) (Fin (x' / w * (1 - y')))
          ((segs ! i)\<lparr>getText := t\<rparr>)"
    by (simp add: verdicts_part0_def pa'(1) band' sp(1) sp(3))
  have wi0': "0 < getWeight ((segs ! i)\<lparr>getText := t\<rparr>)" using wi0 by simp
  have conds: "(x / w * (1 + y) * wi < L \<longrightarrow>
        x' / w * (1 + y') * wi < L'
        \<and> L - x / w * (1 + y) * wi \<le> L' - x' / w * (1 + y') * wi)
     \<and> (\<not> L < x / w * (1 - y) * wi \<longrightarrow>
        x' / w * (1 + y') * wi < L' \<or> \<not> L' < x' / w * (1 - y') * wi)"
  proof (cases "i = m")
    case True
    from True [symmetric] have e: "wi = w" "Lm = L" "Lm' = L'"
      by (simp_all add: wi_def w_def Lm_def L_def Lm'_def L'_def sp(3))
    from w0 have c: "z / w * u * w = z * u" for z u by simp
    show ?thesis
      unfolding e(1) c
      by (rule clamped_reference_monotone [OF LL L0 q0 s0 st [unfolded e] st' [unfolded e]])
  next
    case False
    then have "m \<noteq> i" by simp
    then have "Lm' = Lm" by (simp add: Lm'_def Lm_def sp(4))
    with st' have "(\<exists>a. lmin = Some a \<and> max Lm q < a * p \<and> x' = a * p \<and> y' = 0)
       \<or> (\<exists>b. lmax = Some b \<and> b * p < max Lm q
              \<and> (\<forall>a. lmin = Some a \<longrightarrow> a * p \<le> max Lm q \<and> a \<le> b * p) \<and> x' = b * p \<and> y' = 0)
       \<or> ((\<forall>a. lmin = Some a \<longrightarrow> a * p \<le> max Lm q)
              \<and> (\<forall>b. lmax = Some b \<longrightarrow> (\<forall>a. lmin = Some a \<longrightarrow> a \<le> b * p) \<longrightarrow> max Lm q \<le> b * p)
              \<and> x' = max Lm q \<and> y' = s)"
      by simp
    from clamp_state_unique [OF st this] have u: "x' = x" "y' = y" by simp_all
    show ?thesis unfolding u by (rule other_segment_monotone [OF LL])
  qed
  from conds have long: "x / w * (1 + y) * wi < L \<Longrightarrow>
        x' / w * (1 + y') * wi < L'
        \<and> L - x / w * (1 + y) * wi \<le> L' - x' / w * (1 + y') * wi"
    and short: "\<not> L < x / w * (1 - y) * wi \<Longrightarrow>
        x' / w * (1 + y') * wi < L' \<or> \<not> L' < x' / w * (1 - y') * wi"
    by blast+
  have fl: "u \<le> v \<Longrightarrow> \<lfloor>u + 1 / 2\<rfloor> \<le> \<lfloor>v + 1 / 2\<rfloor>" for u v :: rat
    by (rule floor_mono) simp
  have fl0: "0 \<le> u \<Longrightarrow> 0 \<le> \<lfloor>u + 1 / 2\<rfloor>" for u :: rat by simp
  have r: "verdictRank (verdicts_part0 this ! i) =
      (if x / w * (1 + y) * wi < L
       then (if \<lfloor>L - x / w * (1 + y) * wi + 1 / 2\<rfloor> = 0 then 2 else 3)
       else if L < x / w * (1 - y) * wi then 0 else 1)"
    by (simp add: v rank_segmentVerdict_part0 [OF wi0] L_def wi_def)
  have r': "verdictRank (verdicts_part0 this' ! i) =
      (if x' / w * (1 + y') * wi < L'
       then (if \<lfloor>L' - x' / w * (1 + y') * wi + 1 / 2\<rfloor> = 0 then 2 else 3)
       else if L' < x' / w * (1 - y') * wi then 0 else 1)"
    by (simp add: v' rank_segmentVerdict_part0 [OF wi0'] L'_def wi_def)
  show ?thesis
    unfolding r r'
    by (rule rank_monotone [where rd = "\<lambda>u. \<lfloor>u + 1 / 2\<rfloor>", OF fl fl0 long short])
qed

lemma classRank_verdictRank:
  "classRank (verdictClass v) = min 2 (verdictRank v)"
  by (cases v) simp_all

lemma setText_nonempty:
  "segs \<noteq> [] \<Longrightarrow> setText i t segs \<noteq> []"
  by (simp add: setText_def)

text \<open>Claim C8. Let the weights be positive and the slack be at least 0, as the specification
  requires of a segment set and of the options. When the text of one segment is replaced by a
  text that is at least as long and every other text stays as it is, both constructors accept
  the new segments, and the verdict of the changed segment does not move backward along the
  order too short, alright, too long, in h5p-structure-strip-content.js as in part\_000 with
  any length bounds. This holds for the order of the three classes, where a too long segment
  with a gap of 0 counts as too long, and for the finer order \<^const>\<open>verdictRank\<close>, where
  a too long segment with a gap of 0 stands between alright and too long with a positive gap.
  The changed segment may be the reference segment.\<close>

theorem verdict_monotone_in_text_length:
  assumes a: "StructureStripContent segs sl mode tx = Inr this"
    and b: "StructureStripContent_part0 segs sl mode tx lmin lmax = Inr this0"
    and pos: "\<forall>s\<in>set segs. 0 < getWeight s"
    and slack: "0 \<le> sl"
    and i: "i < length segs"
    and longer: "length (getText (segs ! i)) \<le> length t"
  shows "\<exists>this' this0'.
       StructureStripContent (setText i t segs) sl mode tx = Inr this'
     \<and> StructureStripContent_part0 (setText i t segs) sl mode tx lmin lmax = Inr this0'
     \<and> verdictRank (verdicts this ! i) \<le> verdictRank (verdicts this' ! i)
     \<and> classRank (verdictClass (verdicts this ! i))
          \<le> classRank (verdictClass (verdicts this' ! i))
     \<and> verdictRank (verdicts_part0 this0 ! i) \<le> verdictRank (verdicts_part0 this0' ! i)
     \<and> classRank (verdictClass (verdicts_part0 this0 ! i))
          \<le> classRank (verdictClass (verdicts_part0 this0' ! i))"
proof -
  from i have "segs \<noteq> []" by auto
  then have ne: "setText i t segs \<noteq> []" by (rule setText_nonempty)
  from StructureStripContent_succeeds [OF ne]
  obtain this' where a': "StructureStripContent (setText i t segs) sl mode tx = Inr this'"
    by blast
  from StructureStripContent_part0_succeeds [OF ne]
  obtain this0' where
    b': "StructureStripContent_part0 (setText i t segs) sl mode tx lmin lmax = Inr this0'"
    by blast
  note r = content_growing [OF a a' pos slack i longer]
  note r0 = part0_growing [OF b b' pos slack i longer]
  from r have c: "classRank (verdictClass (verdicts this ! i))
          \<le> classRank (verdictClass (verdicts this' ! i))"
    unfolding classRank_verdictRank by (rule min.mono [OF order_refl])
  from r0 have c0: "classRank (verdictClass (verdicts_part0 this0 ! i))
          \<le> classRank (verdictClass (verdicts_part0 this0' ! i))"
    unfolding classRank_verdictRank by (rule min.mono [OF order_refl])
  show ?thesis
    by (intro exI [of _ this'] exI [of _ this0'] conjI) (rule a' b' r c r0 c0)+
qed

theorem verdict_monotone_in_text_length_witness:
  "\<exists>this this0 this' this0'.
      StructureStripContent
        [\<lparr>getTitle = ''Intro'', getWeight = 1, getText = []\<rparr>,
         \<lparr>getTitle = ''Body'', getWeight = 3, getText = ''abcdefghi''\<rparr>]
        10 ''onRequest'' \<lparr>l10n_tooLong = ''too long'', l10n_tooShort = ''too short'',
           l10n_segmentTooLong = ''@title: remove @chars'',
           l10n_segmentTooShort = ''@title: add @chars'',
           l10n_allSegmentsGood = ''good''\<rparr> = Inr this
    \<and> StructureStripContent_part0
        [\<lparr>getTitle = ''Intro'', getWeight = 1, getText = []\<rparr>,
         \<lparr>getTitle = ''Body'', getWeight = 3, getText = ''abcdefghi''\<rparr>]
        10 ''onRequest'' \<lparr>l10n_tooLong = ''too long'', l10n_tooShort = ''too short'',
           l10n_segmentTooLong = ''@title: remove @chars'',
           l10n_segmentTooShort = ''@title: add @chars'',
           l10n_allSegmentsGood = ''good''\<rparr> None None = Inr this0
    \<and> StructureStripContent
        (setText 0 ''Hello''
          [\<lparr>getTitle = ''Intro'', getWeight = 1, getText = []\<rparr>,
           \<lparr>getTitle = ''Body'', getWeight = 3, getText = ''abcdefghi''\<rparr>])
        10 ''onRequest'' \<lparr>l10n_tooLong = ''too long'', l10n_tooShort = ''too short'',
           l10n_segmentTooLong = ''@title: remove @chars'',
           l10n_segmentTooShort = ''@title: add @chars'',
           l10n_allSegmentsGood = ''good''\<rparr> = Inr this'
    \<and> StructureStripContent_part0
        (setText 0 ''Hello''
          [\<lparr>getTitle = ''Intro'', getWeight = 1, getText = []\<rparr>,
           \<lparr>getTitle = ''Body'', getWeight = 3, getText = ''abcdefghi''\<rparr>])
        10 ''onRequest'' \<lparr>l10n_tooLong = ''too long'', l10n_tooShort = ''too short'',
           l10n_segmentTooLong = ''@title: remove @chars'',
           l10n_segmentTooShort = ''@title: add @chars'',
           l10n_allSegmentsGood = ''good''\<rparr> None None = Inr this0'
    \<and> verdicts this = [TooShort (Fin 3), Alright]
    \<and> verdicts_part0 this0 = [TooShort (Fin 3), Alright]
    \<and> verdictRank (verdicts this ! 0) \<le> verdictRank (verdicts this' ! 0)
    \<and> classRank (verdictClass (verdicts this ! 0))
         \<le> classRank (verdictClass (verdicts this' ! 0))
    \<and> verdictRank (verdicts_part0 this0 ! 0) \<le> verdictRank (verdicts_part0 this0' ! 0)
    \<and> classRank (verdictClass (verdicts_part0 this0 ! 0))
         \<le> classRank (verdictClass (verdicts_part0 this0' ! 0))"
proof -
  let ?segs = "[\<lparr>getTitle = ''Intro'', getWeight = 1, getText = []\<rparr>,
         \<lparr>getTitle = ''Body'', getWeight = 3, getText = ''abcdefghi''\<rparr>]"
  let ?l = "\<lparr>l10n_tooLong = ''too long'', l10n_tooShort = ''too short'',
           l10n_segmentTooLong = ''@title: remove @chars'',
           l10n_segmentTooShort = ''@title: add @chars'',
           l10n_allSegmentsGood = ''good''\<rparr>"
  have pos: "\<forall>s\<in>set ?segs. 0 < getWeight s" by simp
  have ne: "?segs \<noteq> []" by simp
  have sl: "(0::rat) \<le> 10" by simp
  have i: "0 < length ?segs" by simp
  have longer: "length (getText (?segs ! 0)) \<le> length ''Hello''" by simp
  from StructureStripContent_succeeds [OF ne]
  obtain a where a: "StructureStripContent ?segs 10 ''onRequest'' ?l = Inr a" by blast
  from StructureStripContent_part0_succeeds [OF ne]
  obtain b where b: "StructureStripContent_part0 ?segs 10 ''onRequest'' ?l None None = Inr b"
    by blast
  have "case StructureStripContent ?segs 10 ''onRequest'' ?l of
          Inl e \<Rightarrow> False
        | Inr this \<Rightarrow> verdicts this = [TooShort (Fin 3), Alright]"
    by code_simp
  from this [unfolded a sum.case] have va: "verdicts a = [TooShort (Fin 3), Alright]" .
  have "case StructureStripContent_part0 ?segs 10 ''onRequest'' ?l None None of
          Inl e \<Rightarrow> False
        | Inr this \<Rightarrow> verdicts_part0 this = [TooShort (Fin 3), Alright]"
    by code_simp
  from this [unfolded b sum.case]
  have vb: "verdicts_part0 b = [TooShort (Fin 3), Alright]" .
  from verdict_monotone_in_text_length [OF a b pos sl i longer]
  obtain a' b' where
    t: "StructureStripContent (setText 0 ''Hello'' ?segs) 10 ''onRequest'' ?l = Inr a'"
      "StructureStripContent_part0 (setText 0 ''Hello'' ?segs) 10 ''onRequest'' ?l None None
         = Inr b'"
      "verdictRank (verdicts a ! 0) \<le> verdictRank (verdicts a' ! 0)"
      "classRank (verdictClass (verdicts a ! 0)) \<le> classRank (verdictClass (verdicts a' ! 0))"
      "verdictRank (verdicts_part0 b ! 0) \<le> verdictRank (verdicts_part0 b' ! 0)"
      "classRank (verdictClass (verdicts_part0 b ! 0))
         \<le> classRank (verdictClass (verdicts_part0 b' ! 0))"
    by (elim exE conjE) (rule that)
  show ?thesis
    by (intro exI [of _ a] exI [of _ b] exI [of _ a'] exI [of _ b'] conjI)
      (rule a b t va vb)+
qed

end
